theory Spec2Isabelle
  imports
    Complex_Main
    "HOL-Library.Char_ord"
    "HOL-Library.List_Lexorder"
    "HOL-Library.AList"
    "HOL-Library.Word"
begin

section \<open>JavaScript values\<close>

text \<open>
  The two Netlify functions of the repository (\<^verbatim>\<open>netlify/functions/trade-appraisal.js\<close>,
  the Form Intake Handler, and \<^verbatim>\<open>netlify/functions/submission-created.js\<close>, the
  Submission Relay Handler) work on values produced by \<^verbatim>\<open>JSON.parse\<close> and by the
  multipart parser.

  A JavaScript string is the list of its UTF-16 code units, so that \<^verbatim>\<open>trim\<close>,
  \<^verbatim>\<open>slice\<close>, the regular expressions and the default order of \<^verbatim>\<open>sort\<close> see what they
  see in the code. \<open>str\<close> turns a literal of this theory into such a string.
\<close>

type_synonym jstring = "16 word list"

definition str :: "string \<Rightarrow> jstring" where
  "str s = map of_char s"

text \<open>
  A value is one of the JSON shapes, plus \<^verbatim>\<open>undefined\<close> for a property that is absent.
  A number of a parsed body is a double that is not \<^verbatim>\<open>NaN\<close>. A finite one is the rational
  it denotes; the code only tests the truthiness of a number and prints it, and for both
  \<^verbatim>\<open>-0\<close> is as \<^verbatim>\<open>0\<close>. The two infinities, which \<^verbatim>\<open>JSON.parse\<close> gives for a
  numeral out of range, are truthy and print through the same conversion, so they are
  carried by two rationals that no finite double denotes. An object is the list of its own
  properties in \<^verbatim>\<open>Object.keys\<close> order; the keys of an object are distinct.
\<close>

datatype jsval =
    JUndefined
  | JNull
  | JBool bool
  | JNum rat
  | JStr jstring
  | JArr "jsval list"
  | JObj "(jstring \<times> jsval) list"

datatype js_error = TypeError

text \<open>A computation that may throw: \<open>Inl\<close> is the exception. \<open>bind_err\<close> runs the rest
  only when the first part returned.\<close>

definition bind_err :: "'e + 'a \<Rightarrow> ('a \<Rightarrow> 'e + 'b) \<Rightarrow> 'e + 'b" where
  "bind_err m f = (case m of Inl e \<Rightarrow> Inl e | Inr v \<Rightarrow> f v)"

text \<open>Truthiness, as \<^verbatim>\<open>Boolean(v)\<close>, \<^verbatim>\<open>a || b\<close> and \<^verbatim>\<open>if (v)\<close> read it.\<close>

fun truthy :: "jsval \<Rightarrow> bool" where
  "truthy JUndefined = False"
| "truthy JNull = False"
| "truthy (JBool b) = b"
| "truthy (JNum n) = (n \<noteq> 0)"
| "truthy (JStr s) = (s \<noteq> [])"
| "truthy (JArr xs) = True"
| "truthy (JObj kvs) = True"

definition js_or :: "jsval \<Rightarrow> jsval \<Rightarrow> jsval" where
  "js_or a b = (if truthy a then a else b)"

text \<open>
  Property read \<^verbatim>\<open>v.k\<close> for the property names the handlers read. On \<^verbatim>\<open>null\<close> and
  \<^verbatim>\<open>undefined\<close> it throws; on an object it is the own property or \<^verbatim>\<open>undefined\<close>; a number,
  boolean, string or array has none of the names the handlers read as a data property
  (\<^verbatim>\<open>"abc".trim\<close> is a function, which \<^verbatim>\<open>safe\<close> treats exactly as it treats
  \<^verbatim>\<open>undefined\<close>).
\<close>

definition lookup_prop :: "(jstring \<times> jsval) list \<Rightarrow> jstring \<Rightarrow> jsval" where
  "lookup_prop kvs k = (case map_of kvs k of Some v \<Rightarrow> v | None \<Rightarrow> JUndefined)"

fun get_prop :: "jsval \<Rightarrow> jstring \<Rightarrow> js_error + jsval" where
  "get_prop JUndefined k = Inl TypeError"
| "get_prop JNull k = Inl TypeError"
| "get_prop (JObj kvs) k = Inr (lookup_prop kvs k)"
| "get_prop v k = Inr JUndefined"

section \<open>String helpers\<close>

definition digit_chars :: jstring where
  "digit_chars = str ''0123456789''"

text \<open>The decimal numeral of an array index, as the keys of an array are: the digits are
  produced from the last one, each put in front of the ones already there.\<close>

fun decimal :: "nat \<Rightarrow> jstring \<Rightarrow> jstring" where
  "decimal n acc =
     (if n div 10 = 0 then (digit_chars ! n) # acc
      else decimal (n div 10) ((digit_chars ! (n mod 10)) # acc))"

definition string_of_nat :: "nat \<Rightarrow> jstring" where
  "string_of_nat n = decimal n []"

text \<open>
  The white space \<^verbatim>\<open>String.prototype.trim\<close> strips and the regular expression \<^verbatim>\<open>\s\<close>
  matches: the white space and line terminator code points of ECMAScript, which are tab,
  line feed, vertical tab, form feed, carriage return, space, no-break space, U+1680,
  U+2000 to U+200A, U+2028, U+2029, U+202F, U+205F, U+3000 and U+FEFF. Each is one code
  unit.
\<close>

definition is_space :: "16 word \<Rightarrow> bool" where
  "is_space c =
     (c \<in> set [0x0009, 0x000A, 0x000B, 0x000C, 0x000D, 0x0020, 0x00A0, 0x1680,
                0x2000, 0x2001, 0x2002, 0x2003, 0x2004, 0x2005, 0x2006, 0x2007, 0x2008,
                0x2009, 0x200A, 0x2028, 0x2029, 0x202F, 0x205F, 0x3000, 0xFEFF])"

definition js_trim :: "jstring \<Rightarrow> jstring" where
  "js_trim s = rev (dropWhile is_space (rev (dropWhile is_space s)))"

text \<open>\<^verbatim>\<open>\D\<close> matches every code unit that is not one of \<^verbatim>\<open>0\<close> to \<^verbatim>\<open>9\<close>.\<close>

definition is_digit :: "16 word \<Rightarrow> bool" where
  "is_digit c = (0x30 \<le> c \<and> c \<le> 0x39)"

text \<open>\<^verbatim>\<open>s.startsWith(p)\<close> and \<^verbatim>\<open>s.includes(p)\<close>.\<close>

definition startsWith :: "jstring \<Rightarrow> jstring \<Rightarrow> bool" where
  "startsWith s p = (take (length p) s = p)"

fun js_includes :: "jstring \<Rightarrow> jstring \<Rightarrow> bool" where
  "js_includes [] p = (p = [])"
| "js_includes (c # cs) p = (startsWith (c # cs) p \<or> js_includes cs p)"

text \<open>\<^verbatim>\<open>xs.join(sep)\<close> on strings.\<close>

fun join :: "jstring \<Rightarrow> jstring list \<Rightarrow> jstring" where
  "join sep [] = []"
| "join sep [x] = x"
| "join sep (x # y # ys) = x @ sep @ join sep (y # ys)"

text \<open>\<^verbatim>\<open>s.split(",")\<close>: the pieces between the separators, at least one piece.\<close>

fun split_on :: "16 word \<Rightarrow> jstring \<Rightarrow> jstring list" where
  "split_on d [] = [[]]"
| "split_on d (c # cs) =
     (if c = d then [] # split_on d cs
      else (case split_on d cs of p # ps \<Rightarrow> (c # p) # ps | [] \<Rightarrow> [[c]]))"

text \<open>
  \<^verbatim>\<open>String(v)\<close> and the interpolation of a template literal. A plain object prints through
  \<^verbatim>\<open>Object.prototype.toString\<close> as \<^verbatim>\<open>[object Object]\<close>; when it has an own property
  \<^verbatim>\<open>toString\<close>, which in a parsed body is never a function, the conversion throws a
  \<^verbatim>\<open>TypeError\<close>. An array prints its elements joined with a comma, \<^verbatim>\<open>null\<close> and
  \<^verbatim>\<open>undefined\<close> elements as the empty string, and throws when an element throws.
  \<open>printable\<close> says that the conversion returns, \<open>print\<close> what it returns then.
  \<open>nt\<close> is the conversion of a number to a string by the platform, the shortest
  decimal numeral that reads back as the same double (\<^verbatim>\<open>12345\<close>, \<^verbatim>\<open>1.5\<close>,
  \<^verbatim>\<open>1e+21\<close>).
\<close>

fun printable :: "jsval \<Rightarrow> bool" where
  "printable (JArr xs) = list_all (\<lambda>x. x = JUndefined \<or> x = JNull \<or> printable x) xs"
| "printable (JObj kvs) = (map_of kvs (str ''toString'') = None)"
| "printable v = True"

fun print :: "(rat \<Rightarrow> jstring) \<Rightarrow> jsval \<Rightarrow> jstring" where
  "print nt JUndefined = str ''undefined''"
| "print nt JNull = str ''null''"
| "print nt (JBool b) = (if b then str ''true'' else str ''false'')"
| "print nt (JNum n) = nt n"
| "print nt (JStr s) = s"
| "print nt (JArr xs) =
     join (str '','') (map (\<lambda>x. if x = JUndefined \<or> x = JNull then [] else print nt x) xs)"
| "print nt (JObj kvs) = str ''[object Object]''"

definition js_String :: "(rat \<Rightarrow> jstring) \<Rightarrow> jsval \<Rightarrow> js_error + jstring" where
  "js_String nt v = (if printable v then Inr (print nt v) else Inl TypeError)"

section \<open>The helpers of the Form Intake Handler\<close>

text \<open>\<^verbatim>\<open>const safe = (v) => (typeof v === "string" ? v.trim() : "");\<close>\<close>

fun safe :: "jsval \<Rightarrow> jstring" where
  "safe (JStr s) = js_trim s"
| "safe v = []"

text \<open>\<^verbatim>\<open>const digits = (v) => safe(v).replace(/\D/g, "");\<close>\<close>

definition digits :: "jsval \<Rightarrow> jstring" where
  "digits v = filter is_digit (safe v)"

text \<open>\<^verbatim>\<open>String(s).replace(/&/g, "&amp;").replace(/</g, "&lt;").replace(/>/g, "&gt;")\<close>:
  the ampersands are replaced first, so the ones the later replacements bring in stay.\<close>

definition replace_char :: "16 word \<Rightarrow> jstring \<Rightarrow> jstring \<Rightarrow> jstring" where
  "replace_char c r s = concat (map (\<lambda>x. if x = c then r else [x]) s)"

definition escape :: "jstring \<Rightarrow> jstring" where
  "escape s =
     replace_char (of_char CHR ''>'') (str ''&gt;'')
       (replace_char (of_char CHR ''<'') (str ''&lt;'')
          (replace_char (of_char CHR ''&'') (str ''&amp;'') s))"

section \<open>Lead normalisation\<close>

text \<open>The field \<^verbatim>\<open>make\<close> of the source is \<open>make'\<close> here: every record already has a
  constant \<open>make\<close>.\<close>

record lead =
  name :: jstring
  email :: jstring
  phone :: jstring
  vin :: jstring
  year :: jstring
  make' :: jstring
  model :: jstring
  trim :: jstring
  mileage :: jstring
  extColor :: jstring
  intColor :: jstring
  referrer :: jstring
  landingPage :: jstring
  submittedAt :: jstring

text \<open>\<^verbatim>\<open>safe(src.k)\<close>: the property read can throw, \<^verbatim>\<open>safe\<close> cannot.\<close>

definition safe_prop :: "jsval \<Rightarrow> jstring \<Rightarrow> js_error + jstring" where
  "safe_prop src k = bind_err (get_prop src k) (\<lambda>v. Inr (safe v))"

text \<open>\<^verbatim>\<open>digits(src.phoneRaw || src.phone).slice(0, 15)\<close>\<close>

definition norm_phone :: "jsval \<Rightarrow> js_error + jstring" where
  "norm_phone src =
     bind_err (get_prop src (str ''phoneRaw'')) (\<lambda>a.
       if truthy a then Inr (take 15 (digits a))
       else bind_err (get_prop src (str ''phone'')) (\<lambda>b. Inr (take 15 (digits b))))"

text \<open>
  \<^verbatim>\<open>safe((src.vin || "").toUpperCase())\<close>: only a string has the method
  \<^verbatim>\<open>toUpperCase\<close>; calling it on a truthy number, boolean, array or object is a
  \<^verbatim>\<open>TypeError\<close>. \<open>up\<close> is \<^verbatim>\<open>String.prototype.toUpperCase\<close> of the platform, with its
  table of Unicode case mappings.
\<close>

definition norm_vin :: "(jstring \<Rightarrow> jstring) \<Rightarrow> jsval \<Rightarrow> js_error + jstring" where
  "norm_vin up src =
     bind_err (get_prop src (str ''vin'')) (\<lambda>v.
       case js_or v (JStr []) of
         JStr s \<Rightarrow> Inr (safe (JStr (up s)))
       | _ \<Rightarrow> Inl TypeError)"

text \<open>
  \<^verbatim>\<open>normalizeLead(src)\<close>. The object literal evaluates its properties in order, so the
  first one that throws decides. \<open>now\<close> is \<^verbatim>\<open>new Date().toISOString()\<close>, the clock read
  at this point.
\<close>

definition normalizeLead :: "(jstring \<Rightarrow> jstring) \<Rightarrow> jstring \<Rightarrow> jsval \<Rightarrow> js_error + lead" where
  "normalizeLead up now src =
     bind_err (safe_prop src (str ''name'')) (\<lambda>v_name.
     bind_err (safe_prop src (str ''email'')) (\<lambda>v_email.
     bind_err (norm_phone src) (\<lambda>v_phone.
     bind_err (norm_vin up src) (\<lambda>v_vin.
     bind_err (safe_prop src (str ''year'')) (\<lambda>v_year.
     bind_err (safe_prop src (str ''make'')) (\<lambda>v_make.
     bind_err (safe_prop src (str ''model'')) (\<lambda>v_model.
     bind_err (safe_prop src (str ''trim'')) (\<lambda>v_trim.
     bind_err (safe_prop src (str ''mileage'')) (\<lambda>v_mileage.
     bind_err (safe_prop src (str ''extColor'')) (\<lambda>v_ext.
     bind_err (safe_prop src (str ''intColor'')) (\<lambda>v_int.
     bind_err (safe_prop src (str ''referrer'')) (\<lambda>v_ref.
     bind_err (safe_prop src (str ''landingPage'')) (\<lambda>v_land.
     Inr \<lparr> name = v_name, email = v_email, phone = v_phone, vin = v_vin, year = v_year,
           make' = v_make, model = v_model, trim = v_trim, mileage = v_mileage,
           extColor = v_ext, intColor = v_int, referrer = v_ref, landingPage = v_land,
           submittedAt = now \<rparr>)))))))))))))"

section \<open>The email bodies of the Form Intake Handler\<close>

definition nl :: jstring where
  "nl = [0x000A]"

definition en_dash :: jstring where
  "en_dash = [0x2013]"

definition preferred :: "jstring list" where
  "preferred = map str
     [''name'', ''email'', ''phone'', ''vin'', ''year'', ''make'', ''model'', ''trim'', ''mileage'',
      ''extColor'', ''intColor'', ''title'', ''keys'', ''owners'', ''accident'', ''accidentRepair'',
      ''warnings'', ''mech'', ''cosmetic'', ''interior'', ''mods'', ''smells'', ''service'',
      ''tires'', ''brakes'', ''wear'', ''utmSource'', ''utmMedium'', ''utmCampaign'', ''utmTerm'',
      ''utmContent'', ''referrer'', ''landingPage'', ''submittedAt'']"

text \<open>\<^verbatim>\<open>v !== undefined && v !== null && String(v).trim() !== ""\<close>, written inline twice in
  \<^verbatim>\<open>buildEmailBodies\<close> and named \<^verbatim>\<open>hasVal\<close> in \<^verbatim>\<open>createEmailContent\<close>. The conversion
  to a string is reached only for a value that is neither \<^verbatim>\<open>undefined\<close> nor \<^verbatim>\<open>null\<close>.\<close>

definition hasVal :: "(rat \<Rightarrow> jstring) \<Rightarrow> jsval \<Rightarrow> js_error + bool" where
  "hasVal nt v =
     (if v = JUndefined \<or> v = JNull then Inr False
      else bind_err (js_String nt v) (\<lambda>s. Inr (js_trim s \<noteq> [])))"

text \<open>The values on which this test returns: the two it does not convert, and the ones
  whose conversion to a string returns.\<close>

definition row_value_ok :: "jsval \<Rightarrow> bool" where
  "row_value_ok v = (v = JUndefined \<or> v = JNull \<or> printable v)"

text \<open>The own enumerable properties an object spread \<^verbatim>\<open>{...v}\<close> copies: those of an
  object, the indexed elements of an array, the indexed characters of a string, none of a
  number, boolean, \<^verbatim>\<open>null\<close> or \<^verbatim>\<open>undefined\<close>.\<close>

fun own_entries :: "jsval \<Rightarrow> (jstring \<times> jsval) list" where
  "own_entries (JObj kvs) = kvs"
| "own_entries (JArr xs) = zip (map string_of_nat [0..<length xs]) xs"
| "own_entries (JStr s) = zip (map string_of_nat [0..<length s]) (map (\<lambda>c. JStr [c]) s)"
| "own_entries v = []"

text \<open>\<^verbatim>\<open>{...target, ...src}\<close> defines the properties of \<open>src\<close> one by one: a key already
  present keeps its place and takes the new value, a new key goes to the end.\<close>

definition spread :: "(jstring \<times> jsval) list \<Rightarrow> (jstring \<times> jsval) list \<Rightarrow> (jstring \<times> jsval) list" where
  "spread target src = fold (\<lambda>(k, v). AList.update k v) src target"

definition lead_entries :: "lead \<Rightarrow> (jstring \<times> jsval) list" where
  "lead_entries l =
     [(str ''name'', JStr (name l)), (str ''email'', JStr (email l)),
      (str ''phone'', JStr (phone l)), (str ''vin'', JStr (vin l)),
      (str ''year'', JStr (year l)), (str ''make'', JStr (make' l)),
      (str ''model'', JStr (model l)), (str ''trim'', JStr (trim l)),
      (str ''mileage'', JStr (mileage l)), (str ''extColor'', JStr (extColor l)),
      (str ''intColor'', JStr (intColor l)), (str ''referrer'', JStr (referrer l)),
      (str ''landingPage'', JStr (landingPage l)), (str ''submittedAt'', JStr (submittedAt l))]"

text \<open>\<^verbatim>\<open>const merged = { ...rawData, ...lead };\<close>\<close>

definition merged_of :: "lead \<Rightarrow> jsval \<Rightarrow> (jstring \<times> jsval) list" where
  "merged_of l rawData = spread (spread [] (own_entries rawData)) (lead_entries l)"

text \<open>The body of \<^verbatim>\<open>preferred.forEach\<close>: the state is \<^verbatim>\<open>rows\<close> and \<^verbatim>\<open>included\<close>, or
  the exception that ended the loop.\<close>

definition preferred_step ::
  "(rat \<Rightarrow> jstring) \<Rightarrow> (jstring \<times> jsval) list \<Rightarrow> jstring
     \<Rightarrow> js_error + (jstring \<times> jstring) list \<times> jstring list
     \<Rightarrow> js_error + (jstring \<times> jstring) list \<times> jstring list" where
  "preferred_step nt merged k acc =
     bind_err acc (\<lambda>st.
       bind_err (hasVal nt (lookup_prop merged k)) (\<lambda>b.
         if b then bind_err (js_String nt (lookup_prop merged k)) (\<lambda>s.
                     Inr (fst st @ [(k, s)], List.insert k (snd st)))
         else Inr st))"

text \<open>The body of the second \<^verbatim>\<open>forEach\<close>, over the remaining keys.\<close>

definition rest_step ::
  "(rat \<Rightarrow> jstring) \<Rightarrow> (jstring \<times> jsval) list \<Rightarrow> jstring
     \<Rightarrow> js_error + (jstring \<times> jstring) list \<Rightarrow> js_error + (jstring \<times> jstring) list" where
  "rest_step nt merged k acc =
     bind_err acc (\<lambda>rows.
       bind_err (hasVal nt (lookup_prop merged k)) (\<lambda>b.
         if b then bind_err (js_String nt (lookup_prop merged k)) (\<lambda>s. Inr (rows @ [(k, s)]))
         else Inr rows))"

text \<open>The rows of \<^verbatim>\<open>buildEmailBodies\<close>. \<^verbatim>\<open>sort()\<close> without a comparison function orders
  strings by their code units.\<close>

definition build_rows ::
  "(rat \<Rightarrow> jstring) \<Rightarrow> lead \<Rightarrow> jsval \<Rightarrow> js_error + (jstring \<times> jstring) list" where
  "build_rows nt l rawData =
     (let merged = merged_of l rawData in
      bind_err (fold (preferred_step nt merged) preferred (Inr ([], []))) (\<lambda>st.
        fold (rest_step nt merged)
          (sort (filter (\<lambda>k. k \<notin> set (snd st)) (map fst merged)))
          (Inr (fst st))))"

text \<open>\<^verbatim>\<open>[lead.year, lead.make, lead.model].filter(Boolean).join(" ")\<close>\<close>

definition vehicle_line :: "lead \<Rightarrow> jstring" where
  "vehicle_line l = join (str '' '') (filter (\<lambda>s. s \<noteq> []) [year l, make' l, model l])"

definition html_row :: "jstring \<times> jstring \<Rightarrow> jstring" where
  \<open>html_row kv = concat
     [nl, str ''        <tr>'', nl,
      str ''          <th align="left" style="text-transform:capitalize;vertical-align:top;color:#111827;padding:6px 10px 6px 0;">'',
      escape (fst kv), str ''</th>'', nl,
      str ''          <td style="vertical-align:top;color:#111827;padding:6px 0;">'',
      escape (snd kv), str ''</td>'', nl,
      str ''        </tr>'', nl,
      str ''      '']\<close>

record email_bodies =
  html :: jstring
  text_body :: jstring

text \<open>The template of \<^verbatim>\<open>html\<close>, cut at its interpolations: the text up to the vehicle
  line, the vehicle line with the trim, the text up to the rows, and the text after the rows
  with the time of submission.\<close>

definition html_head :: jstring where
  \<open>html_head = concat
     [nl, str ''    <h2 style="margin:0 0 12px;font-family:system-ui,Segoe UI,Roboto,Helvetica,Arial;">New Trade-In Lead</h2>'', nl,
      str ''    <p style="margin:0 0 16px;color:#374151;">'', nl,
      str ''      '']\<close>

definition html_summary :: "lead \<Rightarrow> jstring" where
  "html_summary l =
     vehicle_line l
     @ (if trim l \<noteq> [] then str '' '' @ en_dash @ str '' '' @ escape (trim l) else [])"

definition html_table_open :: jstring where
  \<open>html_table_open = concat
     [nl, str ''    </p>'', nl,
      str ''    <table cellpadding="6" cellspacing="0" border="0" style="border-collapse:collapse;font-family:system-ui,Segoe UI,Roboto,Helvetica,Arial;font-size:14px;">'', nl,
      str ''      '']\<close>

definition html_foot :: "lead \<Rightarrow> jstring" where
  \<open>html_foot l = concat
     [nl, str ''    </table>'', nl,
      str ''    <p style="margin-top:16px;color:#6B7280;font-size:12px;">Submitted at '',
      escape (submittedAt l), str ''</p>'', nl,
      str ''  '']\<close>

definition build_html :: "lead \<Rightarrow> (jstring \<times> jstring) list \<Rightarrow> jstring" where
  "build_html l rows =
     html_head @ html_summary l @ html_table_open @ concat (map html_row rows) @ html_foot l"

definition text_row :: "jstring \<times> jstring \<Rightarrow> jstring" where
  "text_row kv = fst kv @ str '': '' @ snd kv"

text \<open>\<^verbatim>\<open>buildEmailBodies(lead, rawData)\<close>: it throws when the rows do.\<close>

definition buildEmailBodies ::
  "(rat \<Rightarrow> jstring) \<Rightarrow> lead \<Rightarrow> jsval \<Rightarrow> js_error + email_bodies" where
  "buildEmailBodies nt l rawData =
     bind_err (build_rows nt l rawData) (\<lambda>rows.
       Inr \<lparr> html = build_html l rows, text_body = join nl (map text_row rows) \<rparr>)"

section \<open>Multipart parsing\<close>

type_synonym byte = "8 word"

text \<open>
  An uploaded file as \<^verbatim>\<open>parseMultipart\<close> records it. The field \<^verbatim>\<open>size\<close> of the source is
  \<open>usize\<close> here.
\<close>

record upload =
  field :: jstring
  filename :: jstring
  mimetype :: jstring
  buffer :: "byte list"
  usize :: nat

text \<open>
  Busboy is a library: it reads the body and calls the handlers the code registers. What it
  reports is a sequence of parts, a field with its name and value or a file with its field
  name, the \<^verbatim>\<open>filename\<close> and \<^verbatim>\<open>mimeType\<close> of its \<^verbatim>\<open>info\<close> (either may be
  \<^verbatim>\<open>undefined\<close>) and the chunks of its \<^verbatim>\<open>data\<close> events, and then either \<^verbatim>\<open>finish\<close>
  or \<^verbatim>\<open>error\<close>. The parser is created without \<^verbatim>\<open>limits\<close>, so the \<^verbatim>\<open>limit\<close> event
  of a file never fires.
\<close>

datatype part =
    FieldPart jstring jstring
  | FilePart jstring "jstring option" "jstring option" "byte list list"

datatype busboy_run = BusboyError | BusboyFinish "part list"

text \<open>\<^verbatim>\<open>a || b\<close> where \<open>a\<close> is a string or \<^verbatim>\<open>undefined\<close>.\<close>

definition str_or :: "jstring option \<Rightarrow> jstring \<Rightarrow> jstring" where
  "str_or a b = (case a of None \<Rightarrow> b | Some x \<Rightarrow> if x = [] then b else x)"

text \<open>The \<^verbatim>\<open>data\<close> handler of a file: \<^verbatim>\<open>size += d.length; chunks.push(d)\<close>.\<close>

definition on_data :: "byte list \<Rightarrow> nat \<times> byte list list \<Rightarrow> nat \<times> byte list list" where
  "on_data d st = (fst st + length d, snd st @ [d])"

text \<open>The \<^verbatim>\<open>file\<close> handler with its \<^verbatim>\<open>data\<close> and \<^verbatim>\<open>end\<close> handlers, on the list
  \<^verbatim>\<open>files\<close>.\<close>

definition on_file ::
  "jstring \<Rightarrow> jstring option \<Rightarrow> jstring option \<Rightarrow> byte list list \<Rightarrow> upload list \<Rightarrow> upload list" where
  "on_file fname fn mt ds files =
     (let cleanName = js_trim (str_or fn []);
          st = fold on_data ds (0, [])
      in if cleanName \<noteq> [] \<and> fst st > 0
         then files @ [\<lparr> field = fname, filename = cleanName,
                         mimetype = str_or mt (str ''application/octet-stream''),
                         buffer = concat (snd st), usize = fst st \<rparr>]
         else files)"

text \<open>
  One part: \<^verbatim>\<open>fields[name] = val\<close> for a field, the file handler for a file.
  \<^verbatim>\<open>fields\<close> is a plain object, so the assignment to the name \<^verbatim>\<open>__proto__\<close> goes to the
  setter of \<^verbatim>\<open>Object.prototype\<close>, which ignores a string: no property is stored.
\<close>

fun on_part ::
  "part \<Rightarrow> (jstring \<times> jsval) list \<times> upload list \<Rightarrow> (jstring \<times> jsval) list \<times> upload list" where
  "on_part (FieldPart k val) st =
     (if k = str ''__proto__'' then st else (AList.update k (JStr val) (fst st), snd st))"
| "on_part (FilePart k fn mt ds) st = (fst st, on_file k fn mt ds (snd st))"

text \<open>\<^verbatim>\<open>parseMultipart\<close> on what Busboy reports: \<open>None\<close> is the rejected promise.\<close>

definition parseMultipart :: "busboy_run \<Rightarrow> ((jstring \<times> jsval) list \<times> upload list) option" where
  "parseMultipart run =
     (case run of
        BusboyError \<Rightarrow> None
      | BusboyFinish ps \<Rightarrow> Some (fold on_part ps ([], [])))"

section \<open>Attachments of the Form Intake Handler\<close>

text \<open>A SendGrid attachment. The fields \<^verbatim>\<open>filename\<close> and \<^verbatim>\<open>type\<close> of the source are
  \<open>att_filename\<close> and \<open>att_type\<close> here.\<close>

record attachment =
  content :: jstring
  att_filename :: jstring
  att_type :: jstring
  disposition :: jstring

text \<open>The filter of \<^verbatim>\<open>toAttachments\<close>:
  \<^verbatim>\<open>f && f.buffer && f.buffer.length > 0 && f.filename && String(f.filename).trim()\<close>.\<close>

definition real_file :: "upload \<Rightarrow> bool" where
  "real_file f = (length (buffer f) > 0 \<and> filename f \<noteq> [] \<and> js_trim (filename f) \<noteq> [])"

text \<open>\<open>b64\<close> is \<^verbatim>\<open>buffer.toString("base64")\<close> of Node.\<close>

definition toAttachments :: "(byte list \<Rightarrow> jstring) \<Rightarrow> upload list \<Rightarrow> attachment list" where
  "toAttachments b64 files =
     map (\<lambda>f. \<lparr> content = b64 (buffer f), att_filename = filename f,
                 att_type = str_or (Some (mimetype f)) (str ''application/octet-stream''),
                 disposition = str ''attachment'' \<rparr>)
       (take 8 (filter real_file files))"

section \<open>The Form Intake Handler\<close>

record event =
  httpMethod :: jstring
  headers :: "jstring \<Rightarrow> jstring option"
  body :: jstring
  isBase64Encoded :: bool

datatype resp_body = Plain jstring | Json jsval

record response =
  statusCode :: nat
  resp_headers :: "(jstring \<times> jstring) list"
  resp_body :: resp_body

record email_message =
  to_addrs :: "jstring list"
  from_addr :: "jstring option"
  subject :: jstring
  msg_text :: jstring
  msg_html :: jstring
  attachments :: "attachment list option"

text \<open>What the handler does to the outside: an email handed to SendGrid, a POST of the lead
  to the backup webhook.\<close>

datatype effect = SendEmail email_message | WebhookPost jstring lead

text \<open>
  What the handler reads from the outside: the two parsers, the clock, the environment
  variables, whether \<^verbatim>\<open>sg.send\<close> resolves for a message, and the functions of the
  platform: the two encoders, the two case conversions of strings with their Unicode
  tables, and the conversion of a number to a string. Whether the
  \<^verbatim>\<open>fetch\<close> of the backup resolves is not read: its \<^verbatim>\<open>catch\<close> is empty and nothing after
  it depends on it.
\<close>

record world =
  busboy :: "jstring \<Rightarrow> bool \<Rightarrow> jstring \<Rightarrow> busboy_run"
  json_parse :: "jstring \<Rightarrow> jsval option"
  now :: jstring
  base64 :: "byte list \<Rightarrow> jstring"
  encodeURIComponent :: "jstring \<Rightarrow> jstring"
  toUpperCase :: "jstring \<Rightarrow> jstring"
  toLowerCase :: "jstring \<Rightarrow> jstring"
  number_text :: "rat \<Rightarrow> jstring"
  env_TO_EMAIL :: "jstring option"
  env_FROM_EMAIL :: "jstring option"
  env_SHEETS_WEBHOOK_URL :: "jstring option"
  env_SHEETS_SHARED_SECRET :: "jstring option"
  sg_send_ok :: "email_message \<Rightarrow> bool"

text \<open>The constant \<^verbatim>\<open>headers\<close> of the source.\<close>

definition cors_headers :: "(jstring \<times> jstring) list" where
  "cors_headers =
     [(str ''Access-Control-Allow-Origin'', str ''*''),
      (str ''Access-Control-Allow-Headers'', str ''content-type'')]"

text \<open>\<^verbatim>\<open>event.headers["content-type"] || event.headers["Content-Type"] || ""\<close>\<close>

definition content_type :: "event \<Rightarrow> jstring" where
  "content_type ev =
     str_or (headers ev (str ''content-type'')) (str_or (headers ev (str ''Content-Type'')) [])"

text \<open>The parsing block of the handler: \<open>None\<close> is the \<^verbatim>\<open>catch\<close>.\<close>

definition parse_body :: "world \<Rightarrow> event \<Rightarrow> (jsval \<times> upload list) option" where
  "parse_body w ev =
     (if startsWith (content_type ev) (str ''multipart/form-data'')
      then (case parseMultipart (busboy w (content_type ev) (isBase64Encoded ev) (body ev)) of
              None \<Rightarrow> None
            | Some r \<Rightarrow> Some (JObj (fst r), snd r))
      else (case json_parse w (if body ev = [] then str ''{}'' else body ev) of
              None \<Rightarrow> None
            | Some v \<Rightarrow> Some (v, [])))"

text \<open>\<^verbatim>\<open>(safe(rawData.company) || "").trim()\<close> as a condition.\<close>

definition honeypot :: "jsval \<Rightarrow> js_error + bool" where
  "honeypot rawData =
     bind_err (get_prop rawData (str ''company'')) (\<lambda>c. Inr (js_trim (safe c) \<noteq> []))"

definition default_recipients :: jstring where
  "default_recipients = str ''mpalmer@quirkcars.com, steve.obrien@quirkcars.com, jlombard@quirkcars.com, msalihovic@quirkcars.com, nway@quirkcars.com, gmcintosh@quirkcars.com, lmendez@quirkcars.com''"

definition recipients :: "world \<Rightarrow> jstring list" where
  "recipients w =
     filter (\<lambda>s. s \<noteq> [])
       (map js_trim (split_on (of_char CHR '','') (str_or (env_TO_EMAIL w) default_recipients)))"

definition subjectLine :: "lead \<Rightarrow> jstring" where
  "subjectLine l =
     js_trim (str ''New Trade-In Lead '' @ en_dash @ str '' '' @ name l @ str '' '' @ en_dash
              @ str '' '' @ vehicle_line l)"

text \<open>The block \<^verbatim>\<open>// Build email\<close>: \<^verbatim>\<open>buildEmailBodies\<close> is called first and is outside
  every \<^verbatim>\<open>try\<close>, so when it throws the handler does.\<close>

definition compose :: "world \<Rightarrow> lead \<Rightarrow> jsval \<Rightarrow> upload list \<Rightarrow> js_error + email_message" where
  "compose w l rawData uploads =
     bind_err (buildEmailBodies (number_text w) l rawData) (\<lambda>bodies.
       Inr \<lparr> to_addrs = recipients w, from_addr = env_FROM_EMAIL w, subject = subjectLine l,
              msg_text = text_body bodies, msg_html = html bodies,
              attachments = (if toAttachments (base64 w) uploads \<noteq> []
                             then Some (toAttachments (base64 w) uploads) else None) \<rparr>)"

text \<open>The backup block: nothing without \<^verbatim>\<open>SHEETS_WEBHOOK_URL\<close>; its errors are ignored.\<close>

definition backup :: "world \<Rightarrow> lead \<Rightarrow> effect list" where
  "backup w l =
     (case env_SHEETS_WEBHOOK_URL w of
        None \<Rightarrow> []
      | Some u \<Rightarrow>
          if u = [] then []
          else (case env_SHEETS_SHARED_SECRET w of
                  None \<Rightarrow> [WebhookPost u l]
                | Some sec \<Rightarrow>
                    if sec = [] then [WebhookPost u l]
                    else [WebhookPost (u @ str ''?secret='' @ encodeURIComponent w sec) l]))"

definition wantsJson :: "world \<Rightarrow> event \<Rightarrow> bool" where
  "wantsJson w ev =
     (js_includes (str_or (headers ev (str ''accept'')) []) (str ''application/json'')
      \<or> toLowerCase w (str_or (headers ev (str ''x-requested-with'')) []) = str ''xmlhttprequest'')"

definition success_response :: "world \<Rightarrow> event \<Rightarrow> email_message \<Rightarrow> response" where
  "success_response w ev msg =
     (if wantsJson w ev
      then \<lparr> statusCode = 200, resp_headers = cors_headers,
             resp_body = Json (JObj [(str ''ok'', JBool True),
               (str ''files'', JNum (case attachments msg of
                                       Some a \<Rightarrow> of_nat (length a) | None \<Rightarrow> 0))]) \<rparr>
      else \<lparr> statusCode = 303,
             resp_headers = cors_headers @ [(str ''Location'', str ''/success/index.html'')],
             resp_body = Plain [] \<rparr>)"

text \<open>From \<^verbatim>\<open>// Build email\<close> to the end of the handler.\<close>

definition deliver ::
  "world \<Rightarrow> event \<Rightarrow> lead \<Rightarrow> jsval \<Rightarrow> upload list \<Rightarrow> (js_error + response) \<times> effect list" where
  "deliver w ev l rawData uploads =
     (case compose w l rawData uploads of
        Inl e \<Rightarrow> (Inl e, [])
      | Inr msg \<Rightarrow>
          if \<not> sg_send_ok w msg
          then (Inr \<lparr> statusCode = 502, resp_headers = cors_headers,
                       resp_body = Plain (str ''Failed to send lead'') \<rparr>, [SendEmail msg])
          else (Inr (success_response w ev msg), SendEmail msg # backup w l))"

text \<open>
  \<^verbatim>\<open>handler(event)\<close>: what it returns, or the exception it rejects with, and what it did to
  the outside, in order.
\<close>

definition handler :: "world \<Rightarrow> event \<Rightarrow> (js_error + response) \<times> effect list" where
  "handler w ev =
     (if httpMethod ev = str ''OPTIONS''
      then (Inr \<lparr> statusCode = 200, resp_headers = cors_headers,
                   resp_body = Plain (str ''ok'') \<rparr>, [])
      else if httpMethod ev \<noteq> str ''POST''
      then (Inr \<lparr> statusCode = 405, resp_headers = cors_headers,
                   resp_body = Plain (str ''Method Not Allowed'') \<rparr>, [])
      else (case parse_body w ev of
              None \<Rightarrow> (Inr \<lparr> statusCode = 400, resp_headers = cors_headers,
                               resp_body = Plain (str ''Invalid request body'') \<rparr>, [])
            | Some p \<Rightarrow>
               (case honeypot (fst p) of
                  Inl e \<Rightarrow> (Inl e, [])
                | Inr True \<Rightarrow>
                    (Inr \<lparr> statusCode = 200, resp_headers = cors_headers,
                           resp_body = Json (JObj [(str ''ok'', JBool True),
                                                   (str ''silent'', JBool True)]) \<rparr>, [])
                | Inr False \<Rightarrow>
                    (case normalizeLead (toUpperCase w) (now w) (fst p) of
                       Inl e \<Rightarrow> (Inl e, [])
                     | Inr l \<Rightarrow>
                         if name l = [] \<or> email l = [] \<or> phone l = [] \<or> vin l = []
                         then (Inr \<lparr> statusCode = 400, resp_headers = cors_headers,
                                      resp_body = Plain (str ''Missing required fields'') \<rparr>, [])
                         else deliver w ev l (fst p) (snd p)))))"

section \<open>The Submission Relay Handler: email content\<close>

text \<open>The set \<^verbatim>\<open>included\<close> of \<^verbatim>\<open>createEmailContent\<close>: the keys it leaves out.\<close>

definition control_fields :: "jstring list" where
  "control_fields = map str [''form-name'', ''company'', ''bot-field'', ''honeypot'']"

text \<open>\<^verbatim>\<open>Array.isArray(v) ? v.join(", ") : String(v)\<close>: both convert the same values to
  strings, so both throw on the same values.\<close>

definition relay_value :: "(rat \<Rightarrow> jstring) \<Rightarrow> jsval \<Rightarrow> js_error + jstring" where
  "relay_value nt v =
     (if printable v
      then Inr (case v of
                  JArr xs \<Rightarrow> join (str '', '')
                     (map (\<lambda>x. if x = JUndefined \<or> x = JNull then [] else print nt x) xs)
                | _ \<Rightarrow> print nt v)
      else Inl TypeError)"

definition relay_step ::
  "(rat \<Rightarrow> jstring) \<Rightarrow> (jstring \<times> jsval) list \<Rightarrow> jstring
     \<Rightarrow> js_error + (jstring \<times> jstring) list \<Rightarrow> js_error + (jstring \<times> jstring) list" where
  "relay_step nt kvs k acc =
     bind_err acc (\<lambda>rows.
       if k \<in> set control_fields then Inr rows
       else bind_err (hasVal nt (lookup_prop kvs k)) (\<lambda>b.
              if b then bind_err (relay_value nt (lookup_prop kvs k)) (\<lambda>s. Inr (rows @ [(k, s)]))
              else Inr rows))"

definition relay_rows :: "(rat \<Rightarrow> jstring) \<Rightarrow> jsval \<Rightarrow> js_error + (jstring \<times> jstring) list" where
  "relay_rows nt data =
     fold (relay_step nt (own_entries data)) (sort (map fst (own_entries data))) (Inr [])"

definition relay_html_row :: "jstring \<times> jstring \<Rightarrow> jstring" where
  \<open>relay_html_row kv = concat
     [nl, str ''        <tr>'', nl,
      str ''          <th align="left" style="text-transform:capitalize;font-family:system-ui,Segoe UI,Roboto,Helvetica,Arial;font-size:14px;color:#111827;padding:6px 10px 6px 0;">'',
      escape (fst kv), str ''</th>'', nl,
      str ''          <td style="font-family:system-ui,Segoe UI,Roboto,Helvetica,Arial;font-size:14px;color:#111827;padding:6px 0;">'',
      escape (snd kv), str ''</td>'', nl,
      str ''        </tr>'', nl,
      str ''      '']\<close>

text \<open>\<^verbatim>\<open>.replace(/\s+/g, " ")\<close>: every run of white space becomes one space.\<close>

function collapse_ws :: "jstring \<Rightarrow> jstring" where
  "collapse_ws [] = []"
| "collapse_ws (c # cs) =
     (if is_space c then 0x0020 # collapse_ws (dropWhile is_space cs) else c # collapse_ws cs)"
  by pat_completeness auto
termination
  by (relation "measure length") (auto simp: le_imp_less_Suc length_dropWhile_le)

record email_content =
  ec_subject :: jstring
  htmlBody :: jstring
  textBody :: jstring

text \<open>\<^verbatim>\<open>createEmailContent(data)\<close>: the rows, the two bodies, then the subject, whose
  template converts \<^verbatim>\<open>data.year || ""\<close>, \<^verbatim>\<open>data.make || ""\<close> and \<^verbatim>\<open>data.model || ""\<close>
  to strings.\<close>

definition createEmailContent :: "(rat \<Rightarrow> jstring) \<Rightarrow> jsval \<Rightarrow> js_error + email_content" where
  \<open>createEmailContent nt data =
     bind_err (relay_rows nt data) (\<lambda>rows.
     bind_err (js_String nt (js_or (lookup_prop (own_entries data) (str ''year'')) (JStr []))) (\<lambda>y.
     bind_err (js_String nt (js_or (lookup_prop (own_entries data) (str ''make'')) (JStr []))) (\<lambda>mk.
     bind_err (js_String nt (js_or (lookup_prop (own_entries data) (str ''model'')) (JStr []))) (\<lambda>mo.
       Inr \<lparr> ec_subject = js_trim (collapse_ws (str ''New Trade-In Lead '' @ en_dash @ str '' ''
                  @ y @ str '' '' @ mk @ str '' '' @ mo)),
              htmlBody = concat
                [nl, str ''    <h2 style="margin:0 0 12px 0;font-family:system-ui,Segoe UI,Roboto,Helvetica,Arial;">New Trade-In Lead</h2>'', nl,
                 str ''    <table cellpadding="6" cellspacing="0" border="0" style="border-collapse:collapse;">'', nl,
                 str ''      '', concat (map relay_html_row rows), nl,
                 str ''    </table>'', nl,
                 str ''  ''],
              textBody = join nl (map text_row rows) \<rparr>))))\<close>

section \<open>The Submission Relay Handler: fetching attachments\<close>

text \<open>
  A file of the submission payload: \<^verbatim>\<open>url\<close>, \<^verbatim>\<open>filename\<close> and \<^verbatim>\<open>type\<close>, here
  \<open>url\<close>, \<open>fd_filename\<close> and \<open>fd_type\<close>; an absent \<^verbatim>\<open>type\<close> is the empty string, which
  \<^verbatim>\<open>file.type || "application/octet-stream"\<close> treats alike.
\<close>

record file_desc =
  url :: jstring
  fd_filename :: jstring
  fd_type :: jstring

text \<open>
  What one \<^verbatim>\<open>fetch\<close> with its \<^verbatim>\<open>arrayBuffer()\<close> comes to: an exception (a network error,
  which the \<^verbatim>\<open>catch\<close> of the callback takes), a response that is not \<^verbatim>\<open>ok\<close> with its
  status, or the bytes.
\<close>

datatype fetch_outcome = Rejected | NotOk nat | Fetched "byte list"

definition MAX_ATTACH :: nat where "MAX_ATTACH = 10"
definition MAX_EACH_MB :: nat where "MAX_EACH_MB = 7"
definition MAX_TOTAL_MB :: nat where "MAX_TOTAL_MB = 20"

text \<open>
  The callback of \<^verbatim>\<open>.map(async (file) => ...)\<close> from the moment its bytes are there: it
  reads and writes the shared \<^verbatim>\<open>totalSize\<close> and returns the attachment or \<^verbatim>\<open>null\<close>.
  Between the last \<^verbatim>\<open>await\<close> and the \<^verbatim>\<open>return\<close> nothing else runs.
\<close>

definition settle ::
  "(byte list \<Rightarrow> jstring) \<Rightarrow> file_desc \<Rightarrow> fetch_outcome \<Rightarrow> nat \<Rightarrow> attachment option \<times> nat" where
  "settle b64 file out totalSize =
     (case out of
        Rejected \<Rightarrow> (None, totalSize)
      | NotOk st \<Rightarrow> (None, totalSize)
      | Fetched buf \<Rightarrow>
          (let size = length buf in
           if size > MAX_EACH_MB * 1024 * 1024 then (None, totalSize)
           else if totalSize + size > MAX_TOTAL_MB * 1024 * 1024 then (None, totalSize)
           else (Some \<lparr> content = b64 buf, att_filename = fd_filename file,
                         att_type = str_or (Some (fd_type file)) (str ''application/octet-stream''),
                         disposition = str ''attachment'' \<rparr>, totalSize + size)))"

text \<open>The callback of file \<open>i\<close> settles: the state is \<^verbatim>\<open>totalSize\<close> and the array
  \<^verbatim>\<open>Promise.all\<close> will resolve to.\<close>

definition settle_at ::
  "(byte list \<Rightarrow> jstring) \<Rightarrow> file_desc list \<Rightarrow> (nat \<Rightarrow> fetch_outcome) \<Rightarrow> nat
     \<Rightarrow> nat \<times> attachment option list \<Rightarrow> nat \<times> attachment option list" where
  "settle_at b64 considered outcome i st =
     (let r = settle b64 (considered ! i) (outcome i) (fst st)
      in (snd r, (snd st)[i := fst r]))"

text \<open>
  \<^verbatim>\<open>processAttachments(files)\<close>. \<open>outcome i\<close> is what a fetch of the \<open>i\<close>-th file of the
  payload comes to, and \<open>order\<close> lists files of the payload by the time at which their
  fetch completes. A callback exists only for a file of \<^verbatim>\<open>files.slice(0, MAX_ATTACH)\<close>:
  these fetches all start at once, and their callbacks settle in the order \<open>started\<close>, the
  order of completion among them. The result is the array of \<^verbatim>\<open>Promise.all\<close>, which is in
  input order, without its \<^verbatim>\<open>null\<close>s.
\<close>

definition processAttachments ::
  "(byte list \<Rightarrow> jstring) \<Rightarrow> file_desc list \<Rightarrow> (nat \<Rightarrow> fetch_outcome) \<Rightarrow> nat list \<Rightarrow> attachment list" where
  "processAttachments b64 files outcome order =
     (let considered = take MAX_ATTACH files;
          started = filter (\<lambda>i. i < length considered) order;
          st = fold (settle_at b64 considered outcome) started (0, replicate (length considered) None)
      in List.map_filter id (snd st))"

text \<open>An order of completion of the fetches that run: each considered file once.\<close>

definition completion_order :: "file_desc list \<Rightarrow> nat list \<Rightarrow> bool" where
  "completion_order files order =
     (distinct order \<and> set order = {0..<length (take MAX_ATTACH files)})"

text \<open>An order of completion that does not know which fetches run: each file of the payload
  once.\<close>

definition payload_order :: "file_desc list \<Rightarrow> nat list \<Rightarrow> bool" where
  "payload_order files order = (distinct order \<and> set order = {0..<length files})"

text \<open>A fetch failed when it threw or its response was not \<^verbatim>\<open>ok\<close>.\<close>

fun fetch_failed :: "fetch_outcome \<Rightarrow> bool" where
  "fetch_failed Rejected = True"
| "fetch_failed (NotOk st) = True"
| "fetch_failed (Fetched buf) = False"

text \<open>
  The admission policy in the words of the specification: walk the indices in a given order
  with a running total; admit a file when it was fetched, is no larger than the per-file
  limit and keeps the running total within the total limit.
\<close>

definition fetched_size :: "fetch_outcome \<Rightarrow> nat option" where
  "fetched_size out = (case out of Fetched buf \<Rightarrow> Some (length buf) | _ \<Rightarrow> None)"

fun first_fit :: "(nat \<Rightarrow> fetch_outcome) \<Rightarrow> nat list \<Rightarrow> nat \<Rightarrow> nat list" where
  "first_fit outcome [] running = []"
| "first_fit outcome (i # rest) running =
     (case fetched_size (outcome i) of
        None \<Rightarrow> first_fit outcome rest running
      | Some n \<Rightarrow>
          if n \<le> MAX_EACH_MB * 1024 * 1024 \<and> running + n \<le> MAX_TOTAL_MB * 1024 * 1024
          then i # first_fit outcome rest (running + n)
          else first_fit outcome rest running)"

text \<open>The attachment made of the \<open>i\<close>-th file and its bytes.\<close>

definition attachment_at ::
  "(byte list \<Rightarrow> jstring) \<Rightarrow> file_desc list \<Rightarrow> (nat \<Rightarrow> fetch_outcome) \<Rightarrow> nat \<Rightarrow> attachment" where
  "attachment_at b64 files outcome i =
     \<lparr> content = b64 (case outcome i of Fetched buf \<Rightarrow> buf | _ \<Rightarrow> []),
       att_filename = fd_filename (files ! i),
       att_type = str_or (Some (fd_type (files ! i))) (str ''application/octet-stream''),
       disposition = str ''attachment'' \<rparr>"

text \<open>The result the specification describes: first fit in input order.\<close>

definition admitted_in_input_order ::
  "(byte list \<Rightarrow> jstring) \<Rightarrow> file_desc list \<Rightarrow> (nat \<Rightarrow> fetch_outcome) \<Rightarrow> attachment list" where
  "admitted_in_input_order b64 files outcome =
     map (attachment_at b64 files outcome)
       (first_fit outcome [0..<length (take MAX_ATTACH files)] 0)"

text \<open>\<^verbatim>\<open>filesHtml\<close> of the relay handler.\<close>

definition filesHtml :: "file_desc list \<Rightarrow> jstring" where
  \<open>filesHtml files =
     (if length files > 0
      then str ''<ul>'' @ concat (map (\<lambda>f. str ''<li><a href="'' @ url f @ str ''">''
               @ str_or (Some (fd_filename f)) (url f) @ str ''</a></li>'') files) @ str ''</ul>''
      else str ''<p>No photos uploaded.</p>'')\<close>

section \<open>The rule for file parts in the words of the specification\<close>

text \<open>
  A file part is kept when its trimmed filename is not empty and its bytes, all chunks
  together, are more than zero; the upload made of a kept part carries the trimmed filename,
  the declared type or \<^verbatim>\<open>application/octet-stream\<close>, and all its bytes.
\<close>

fun keeps_part :: "part \<Rightarrow> bool" where
  "keeps_part (FieldPart k val) = False"
| "keeps_part (FilePart k fn mt ds) =
     (js_trim (case fn of None \<Rightarrow> [] | Some f \<Rightarrow> f) \<noteq> [] \<and> 0 < sum_list (map length ds))"

fun upload_of_part :: "part \<Rightarrow> upload" where
  "upload_of_part (FilePart k fn mt ds) =
     \<lparr> field = k, filename = js_trim (case fn of None \<Rightarrow> [] | Some f \<Rightarrow> f),
       mimetype = (case mt of None \<Rightarrow> str ''application/octet-stream''
                   | Some m \<Rightarrow> if m = [] then str ''application/octet-stream'' else m),
       buffer = concat ds, usize = sum_list (map length ds) \<rparr>"
| "upload_of_part (FieldPart k val) =
     \<lparr> field = k, filename = [], mimetype = [], buffer = [], usize = 0 \<rparr>"

section \<open>Sample inputs\<close>

text \<open>
  A world and requests on which the theorems below are run: the parsers return what they
  are given here, the send succeeds, the backup webhook is configured. The sample case
  conversions change the letters \<^verbatim>\<open>a\<close> to \<^verbatim>\<open>z\<close> and \<^verbatim>\<open>A\<close> to \<^verbatim>\<open>Z\<close> only and the sample
  number conversion prints natural numbers in decimal; on text of these letters, digits and
  punctuation and on the natural numbers below \<^verbatim>\<open>1e21\<close> this is what the platform does.
\<close>

definition sample_base64 :: "byte list \<Rightarrow> jstring" where
  "sample_base64 bs = map (\<lambda>b. 0x0041) bs"

definition sample_upper :: "jstring \<Rightarrow> jstring" where
  "sample_upper s = map (\<lambda>c. if 0x61 \<le> c \<and> c \<le> 0x7A then c - 0x20 else c) s"

definition sample_lower :: "jstring \<Rightarrow> jstring" where
  "sample_lower s = map (\<lambda>c. if 0x41 \<le> c \<and> c \<le> 0x5A then c + 0x20 else c) s"

definition sample_number_text :: "rat \<Rightarrow> jstring" where
  "sample_number_text r = string_of_nat (nat \<lfloor>r\<rfloor>)"

definition sample_now :: jstring where
  "sample_now = str ''2025-01-01T00:00:00.000Z''"

definition sample_world :: "busboy_run \<Rightarrow> jsval option \<Rightarrow> world" where
  "sample_world run js =
     \<lparr> busboy = (\<lambda>ct b64 bd. run), json_parse = (\<lambda>bd. js),
       now = sample_now, base64 = sample_base64, encodeURIComponent = (\<lambda>x. x),
       toUpperCase = sample_upper, toLowerCase = sample_lower,
       number_text = sample_number_text,
       env_TO_EMAIL = Some (str ''a@quirkcars.com, b@quirkcars.com''),
       env_FROM_EMAIL = Some (str ''sales@quirkcars.com''),
       env_SHEETS_WEBHOOK_URL = Some (str ''https://sheets.example/hook''),
       env_SHEETS_SHARED_SECRET = None, sg_send_ok = (\<lambda>m. True) \<rparr>"

definition sample_post :: "string \<Rightarrow> event" where
  "sample_post ct =
     \<lparr> httpMethod = str ''POST'',
       headers = [str ''content-type'' \<mapsto> str ct, str ''accept'' \<mapsto> str ''application/json''],
       body = [], isBase64Encoded = False \<rparr>"

definition sample_fields :: "(jstring \<times> jsval) list" where
  "sample_fields =
     [(str ''name'', JStr (str ''Ann'')), (str ''email'', JStr (str ''ann@example.com'')),
      (str ''phone'', JStr (str ''617-555-1234'')), (str ''vin'', JStr (str ''1hgcm82633a004352''))]"

definition sample_lead :: lead where
  "sample_lead =
     \<lparr> name = str ''Ann'', email = str ''ann@example.com'', phone = str ''6175551234'',
       vin = str ''1HGCM82633A004352'', year = [], make' = [], model = [], trim = [],
       mileage = [], extColor = [], intColor = [], referrer = [], landingPage = [],
       submittedAt = sample_now \<rparr>"

definition sample_file :: "string \<Rightarrow> part" where
  "sample_file fn = FilePart (str ''photos'') (Some (str fn)) (Some (str ''image/jpeg'')) [[1, 2], [3]]"

text \<open>A multipart submission: the four required fields and nine photos.\<close>

definition sample_parts :: "part list" where
  "sample_parts =
     [FieldPart (str ''name'') (str ''Ann''), FieldPart (str ''email'') (str ''ann@example.com''),
      FieldPart (str ''phone'') (str ''617-555-1234''),
      FieldPart (str ''vin'') (str ''1hgcm82633a004352'')]
     @ map sample_file [''a.jpg'', ''b.jpg'', ''c.jpg'', ''d.jpg'', ''e.jpg'', ''f.jpg'',
                        ''g.jpg'', ''h.jpg'', ''i.jpg'']"

definition sample_uploads :: "upload list" where
  "sample_uploads =
     map (\<lambda>fn. \<lparr> field = str ''photos'', filename = str fn, mimetype = str ''image/jpeg'',
                    buffer = [1, 2, 3], usize = 3 \<rparr>)
       [''a.jpg'', ''b.jpg'', ''c.jpg'', ''d.jpg'', ''e.jpg'', ''f.jpg'', ''g.jpg'', ''h.jpg'',
        ''i.jpg'']"

text \<open>Files of the relay payload, a buffer of a given length, and fetches that bring
  given outcomes.\<close>

definition sample_desc :: "string \<Rightarrow> file_desc" where
  "sample_desc fn =
     \<lparr> url = str ''https://files.example/'' @ str fn, fd_filename = str fn,
       fd_type = str ''image/jpeg'' \<rparr>"

definition sample_descs :: "file_desc list" where
  "sample_descs = map sample_desc [''a.jpg'', ''b.jpg'', ''c.jpg'']"

definition sample_descs11 :: "file_desc list" where
  "sample_descs11 = map sample_desc
     [''a.jpg'', ''b.jpg'', ''c.jpg'', ''d.jpg'', ''e.jpg'', ''f.jpg'', ''g.jpg'', ''h.jpg'',
      ''i.jpg'', ''j.jpg'', ''k.jpg'']"

definition sample_bytes :: "nat \<Rightarrow> byte list" where
  "sample_bytes n = replicate n 0"

definition sample_fetch :: "fetch_outcome list \<Rightarrow> nat \<Rightarrow> fetch_outcome" where
  "sample_fetch outs i = (if i < length outs then outs ! i else Rejected)"


section \<open>Properties of the normaliser\<close>

lemma digit_not_space: "is_digit c \<Longrightarrow> \<not> is_space c"
  by (auto simp: is_digit_def is_space_def)

lemma filter_dropWhile_disjoint:
  "(\<And>x. P x \<Longrightarrow> \<not> Q x) \<Longrightarrow> filter P (dropWhile Q xs) = filter P xs"
  by (induction xs) auto

lemma filter_digit_trim: "filter is_digit (js_trim s) = filter is_digit s"
proof -
  have "filter is_digit (js_trim s) = rev (filter is_digit (dropWhile is_space (rev (dropWhile is_space s))))"
    by (simp add: js_trim_def rev_filter)
  also have "\<dots> = rev (filter is_digit (rev (dropWhile is_space s)))"
    by (simp add: filter_dropWhile_disjoint digit_not_space)
  also have "\<dots> = filter is_digit (dropWhile is_space s)"
    by (simp add: rev_filter)
  finally show ?thesis
    by (simp add: filter_dropWhile_disjoint digit_not_space)
qed

lemma get_prop_total:
  "get_prop src k = Inr a \<Longrightarrow> \<exists>b. get_prop src k' = Inr b"
  by (cases src) auto

lemma safe_prop_total: "get_prop src k = Inr a \<Longrightarrow> \<exists>x. safe_prop src k' = Inr x"
  using get_prop_total[of src k a k'] by (auto simp: safe_prop_def bind_err_def)

lemma norm_phone_total: "get_prop src k = Inr a \<Longrightarrow> \<exists>x. norm_phone src = Inr x"
  using get_prop_total[of src k a "str ''phoneRaw''"] get_prop_total[of src k a "str ''phone''"]
  by (auto simp: norm_phone_def bind_err_def)

text \<open>The first four fields of a lead that \<open>normalizeLead\<close> returns are what the four
  normalisations return.\<close>

lemma normalizeLead_fields:
  assumes "normalizeLead up t src = Inr l"
  shows "safe_prop src (str ''name'') = Inr (name l) \<and> safe_prop src (str ''email'') = Inr (email l)
       \<and> norm_phone src = Inr (phone l) \<and> norm_vin up src = Inr (vin l)"
  using assms unfolding normalizeLead_def bind_err_def
  by (auto split: sum.splits)

lemma norm_phone_digits:
  assumes "norm_phone src = Inr p"
  shows "\<exists>a b. get_prop src (str ''phoneRaw'') = Inr a \<and> get_prop src (str ''phone'') = Inr b
           \<and> p = take 15 (digits (js_or a b))"
proof -
  from assms obtain a where a: "get_prop src (str ''phoneRaw'') = Inr a"
    unfolding norm_phone_def bind_err_def by (auto split: sum.splits)
  from get_prop_total[OF a] obtain b where b: "get_prop src (str ''phone'') = Inr b" by blast
  from assms a b have "p = take 15 (digits (js_or a b))"
    unfolding norm_phone_def bind_err_def js_or_def by (auto split: if_splits)
  with a b show ?thesis by blast
qed

lemma digits_all_digit: "\<forall>c\<in>set (digits v). is_digit c"
  by (simp add: digits_def)

lemma digits_JStr: "digits (JStr s) = filter is_digit s"
  by (simp add: digits_def filter_digit_trim)

lemma norm_vin_JStr:
  assumes "norm_vin up src = Inr v" and "get_prop src (str ''vin'') = Inr (JStr s)"
  shows "v = js_trim (up s)"
  using assms unfolding norm_vin_def bind_err_def js_or_def
  by (auto split: if_splits)

text \<open>
  Claim C6, as the code has it. Whenever \<open>normalizeLead\<close> returns a lead, its phone consists
  of digit characters only and has at most 15 of them; when the value read for the phone
  (\<^verbatim>\<open>src.phoneRaw || src.phone\<close>) is a string, the phone is the first 15 of the digit
  characters of that string, in their order; when \<^verbatim>\<open>src.vin\<close> is a string, the VIN is that
  string uppercased by \<^verbatim>\<open>toUpperCase\<close> and then trimmed.
\<close>

theorem normalizeLead_phone_vin:
  assumes "normalizeLead up t src = Inr l"
  shows "(\<forall>c\<in>set (phone l). is_digit c) \<and> length (phone l) \<le> 15
       \<and> (\<forall>a b s. get_prop src (str ''phoneRaw'') = Inr a \<longrightarrow> get_prop src (str ''phone'') = Inr b
              \<longrightarrow> js_or a b = JStr s \<longrightarrow> phone l = take 15 (filter is_digit s))
       \<and> (\<forall>s. get_prop src (str ''vin'') = Inr (JStr s) \<longrightarrow> vin l = js_trim (up s))"
proof -
  from normalizeLead_fields[OF assms] have
    p: "norm_phone src = Inr (phone l)" and v: "norm_vin up src = Inr (vin l)" by blast+
  from norm_phone_digits[OF p] obtain a b where
    a: "get_prop src (str ''phoneRaw'') = Inr a" and b: "get_prop src (str ''phone'') = Inr b" and
    pd: "phone l = take 15 (digits (js_or a b))" by blast
  have 1: "\<forall>c\<in>set (phone l). is_digit c"
    using digits_all_digit[of "js_or a b"] pd by (auto dest: in_set_takeD)
  have 2: "length (phone l) \<le> 15"
    using pd by simp
  have 3: "\<forall>a' b' s. get_prop src (str ''phoneRaw'') = Inr a' \<longrightarrow> get_prop src (str ''phone'') = Inr b'
              \<longrightarrow> js_or a' b' = JStr s \<longrightarrow> phone l = take 15 (filter is_digit s)"
    using a b pd by (auto simp: digits_JStr)
  have 4: "\<forall>s. get_prop src (str ''vin'') = Inr (JStr s) \<longrightarrow> vin l = js_trim (up s)"
    using norm_vin_JStr[OF v] by blast
  from 1 2 3 4 show ?thesis by blast
qed

lemmas norm_defs = normalizeLead_def bind_err_def safe_prop_def norm_phone_def norm_vin_def
  lookup_prop_def js_or_def digits_def js_trim_def is_space_def is_digit_def str_def
  sample_upper_def sample_now_def

text \<open>
  Claim C6 on the two examples of the specification: the phone example gives
  \<^verbatim>\<open>61755512349\<close>, since the 9 of the extension is a digit too.
\<close>

theorem normalizeLead_phone_vin_witness:
  "normalizeLead sample_upper sample_now
     (JObj [(str ''phone'', JStr (str ''(617) 555-1234 x9'')),
            (str ''vin'', JStr (str ''1hgcm82633a004352''))])
   = Inr \<lparr> name = [], email = [], phone = str ''61755512349'', vin = str ''1HGCM82633A004352'',
           year = [], make' = [], model = [], trim = [], mileage = [], extColor = [],
           intColor = [], referrer = [], landingPage = [], submittedAt = sample_now \<rparr>
   \<and> length (str ''61755512349'') \<le> 15
   \<and> take 15 (filter is_digit (str ''(617) 555-1234 x9'')) = str ''61755512349''
   \<and> js_trim (sample_upper (str ''1hgcm82633a004352'')) = str ''1HGCM82633A004352''"
  using normalizeLead_phone_vin[of sample_upper sample_now
     "JObj [(str ''phone'', JStr (str ''(617) 555-1234 x9'')),
            (str ''vin'', JStr (str ''1hgcm82633a004352''))]"]
  by (simp add: norm_defs)

text \<open>
  Claim C6 as the specification words its example: the phone \<^verbatim>\<open>(617) 555-1234 x9\<close> is not
  normalised to \<^verbatim>\<open>6175551234\<close>.
\<close>

theorem phone_example_counterexample:
  "map_sum id phone (normalizeLead sample_upper sample_now
     (JObj [(str ''phone'', JStr (str ''(617) 555-1234 x9''))])) \<noteq> Inr (str ''6175551234'')"
  by (simp add: norm_defs)

text \<open>When \<open>normalizeLead\<close> throws: exactly when the VIN is a truthy value that is not a
  string. A VIN that is absent, falsy or a string gives a lead.\<close>

lemma norm_vin_throws:
  "get_prop src (str ''vin'') = Inr v \<Longrightarrow> truthy v \<Longrightarrow> \<forall>s. v \<noteq> JStr s \<Longrightarrow>
   norm_vin up src = Inl TypeError"
  by (cases v) (simp_all add: norm_vin_def bind_err_def js_or_def)

lemma norm_vin_returns:
  "get_prop src (str ''vin'') = Inr v \<Longrightarrow> \<not> truthy v \<or> (\<exists>s. v = JStr s) \<Longrightarrow>
   \<exists>x. norm_vin up src = Inr x"
  by (cases v) (auto simp: norm_vin_def bind_err_def js_or_def)

lemma normalizeLead_throws_iff_vin:
  assumes "get_prop src (str ''vin'') = Inr v"
  shows "normalizeLead up t src = Inl TypeError \<longleftrightarrow> (truthy v \<and> (\<forall>s. v \<noteq> JStr s))"
proof -
  obtain a b where a: "safe_prop src (str ''name'') = Inr a"
    and b: "safe_prop src (str ''email'') = Inr b"
    using safe_prop_total[OF assms] by blast
  obtain c where c: "norm_phone src = Inr c" using norm_phone_total[OF assms] by blast
  obtain y where y: "safe_prop src (str ''year'') = Inr y" using safe_prop_total[OF assms] by blast
  obtain mk where mk: "safe_prop src (str ''make'') = Inr mk" using safe_prop_total[OF assms] by blast
  obtain mo where mo: "safe_prop src (str ''model'') = Inr mo" using safe_prop_total[OF assms] by blast
  obtain tr where tr: "safe_prop src (str ''trim'') = Inr tr" using safe_prop_total[OF assms] by blast
  obtain mi where mi: "safe_prop src (str ''mileage'') = Inr mi" using safe_prop_total[OF assms] by blast
  obtain ex where ex: "safe_prop src (str ''extColor'') = Inr ex" using safe_prop_total[OF assms] by blast
  obtain ic where ic: "safe_prop src (str ''intColor'') = Inr ic" using safe_prop_total[OF assms] by blast
  obtain rf where rf: "safe_prop src (str ''referrer'') = Inr rf" using safe_prop_total[OF assms] by blast
  obtain lp where lp: "safe_prop src (str ''landingPage'') = Inr lp" using safe_prop_total[OF assms] by blast
  have n: "normalizeLead up t src = Inl TypeError \<longleftrightarrow> norm_vin up src = Inl TypeError"
    by (cases "norm_vin up src") (simp_all add: normalizeLead_def bind_err_def a b c y mk mo tr mi ex ic rf lp)
  show ?thesis
  proof (cases "truthy v \<and> (\<forall>s. v \<noteq> JStr s)")
    case True
    then show ?thesis using n norm_vin_throws[OF assms] by blast
  next
    case False
    then obtain x where "norm_vin up src = Inr x" using norm_vin_returns[OF assms] by blast
    with n False show ?thesis by simp
  qed
qed

text \<open>
  Claim C7 at a fields map whose VIN is a number: \<open>normalizeLead\<close> does not return a lead, it
  throws a \<^verbatim>\<open>TypeError\<close>, because \<^verbatim>\<open>toUpperCase\<close> is called on the value before
  \<^verbatim>\<open>safe\<close> sees it.
\<close>

theorem normalizeLead_nonstring_vin_throws:
  "normalizeLead up t
     (JObj [(str ''name'', JStr (str ''Ann'')), (str ''email'', JStr (str ''ann@example.com'')),
            (str ''phone'', JStr (str ''6175551234'')), (str ''vin'', JNum 12345)]) = Inl TypeError"
  by (simp add: norm_defs)

section \<open>Properties of the multipart parser\<close>

lemma fold_on_data:
  "fold on_data ds (n, cs) = (n + sum_list (map length ds), cs @ ds)"
  by (induction ds arbitrary: n cs) (simp_all add: on_data_def)

lemma sum_length_pos: "(0 < sum_list (map length ds)) = (\<exists>d\<in>set ds. d \<noteq> [])"
  by (induction ds) auto

lemma on_file_spec:
  "on_file k fn mt ds files =
     files @ (if keeps_part (FilePart k fn mt ds) then [upload_of_part (FilePart k fn mt ds)] else [])"
  by (simp add: on_file_def fold_on_data str_or_def Let_def sum_length_pos split: option.splits)

lemma fold_on_part_files:
  "snd (fold on_part ps st) = snd st @ map upload_of_part (filter keeps_part ps)"
proof (induction ps arbitrary: st)
  case Nil
  show ?case by simp
next
  case (Cons p ps)
  show ?case
  proof (cases p)
    case (FieldPart k val)
    with Cons show ?thesis by simp
  next
    case (FilePart k fn mt ds)
    with Cons show ?thesis by (simp add: on_file_spec del: keeps_part.simps upload_of_part.simps)
  qed
qed

text \<open>An upload made of a kept part has a name and bytes.\<close>

lemma kept_upload_real:
  "keeps_part p \<Longrightarrow> filename (upload_of_part p) \<noteq> [] \<and> 0 < usize (upload_of_part p)
     \<and> length (buffer (upload_of_part p)) = usize (upload_of_part p)"
  by (cases p) (auto simp: length_concat)

text \<open>
  Claim C9. Whatever parts Busboy reports, the files \<open>parseMultipart\<close> resolves to are
  exactly the file parts with a non-empty trimmed filename and more than zero bytes, in the
  order of the parts, each as its upload record; a part that is unnamed or has no bytes is
  not in the list. When Busboy reports an error there is no result at all.
\<close>

theorem parseMultipart_files:
  "map_option snd (parseMultipart (BusboyFinish ps)) = Some (map upload_of_part (filter keeps_part ps))
   \<and> parseMultipart BusboyError = None"
  by (simp add: parseMultipart_def fold_on_part_files)

text \<open>A part whose filename is a no-break space is not kept, whatever its bytes.\<close>

lemma nbsp_part_dropped:
  "map_option snd (parseMultipart (BusboyFinish [FilePart k (Some [0x00A0]) mt [[1]]])) = Some []"
  by (simp add: parseMultipart_def on_file_def str_or_def js_trim_def is_space_def)

section \<open>Properties of the Form Intake Handler\<close>

lemma js_trim_Nil: "js_trim [] = []"
  by (simp add: js_trim_def)

lemma hd_dropWhile_not: "dropWhile P xs \<noteq> [] \<Longrightarrow> \<not> P (hd (dropWhile P xs))"
  by (induction xs) auto

lemma js_trim_hd: "js_trim s \<noteq> [] \<Longrightarrow> \<not> is_space (hd (js_trim s))"
proof -
  assume ne: "js_trim s \<noteq> []"
  let ?a = "dropWhile is_space s"
  let ?b = "dropWhile is_space (rev ?a)"
  from ne have b: "?b \<noteq> []" by (simp add: js_trim_def)
  then have a: "?a \<noteq> []" by (metis dropWhile.simps(1) rev.simps(1))
  have "\<exists>zs. rev ?a = zs @ ?b" by (metis takeWhile_dropWhile_id)
  then obtain zs where "rev ?a = zs @ ?b" by blast
  then have "?a = rev ?b @ rev zs" by (metis rev_append rev_rev_ident)
  with b have "hd (rev ?b) = hd ?a" by (metis hd_append2 rev_is_Nil_conv)
  moreover have "\<not> is_space (hd ?a)" using a by (rule hd_dropWhile_not)
  ultimately show ?thesis by (simp add: js_trim_def)
qed

lemma js_trim_idem: "js_trim (js_trim s) = js_trim s"
proof (cases "js_trim s = []")
  case True
  then show ?thesis by (simp add: js_trim_Nil)
next
  case False
  have h: "\<not> is_space (hd (js_trim s))" using False by (rule js_trim_hd)
  have "js_trim s = rev (dropWhile is_space (rev (dropWhile is_space s)))" by (simp add: js_trim_def)
  then have r: "rev (js_trim s) = dropWhile is_space (rev (dropWhile is_space s))" by simp
  have l: "dropWhile is_space (rev (js_trim s)) = rev (js_trim s)"
    unfolding r by simp
  have f: "dropWhile is_space (js_trim s) = js_trim s"
    using h False by (simp add: dropWhile_eq_self_iff)
  show ?thesis
    unfolding js_trim_def[of "js_trim s"] f l by simp
qed

text \<open>What \<open>safe\<close> leaves non-blank: a string with a character that is not white space.\<close>

lemma safe_nonblank_iff: "safe v \<noteq> [] \<longleftrightarrow> (\<exists>s. v = JStr s \<and> js_trim s \<noteq> [])"
  by (cases v) simp_all

lemma honeypot_iff:
  "get_prop src (str ''company'') = Inr c \<Longrightarrow>
   honeypot src = Inr (\<exists>s. c = JStr s \<and> js_trim s \<noteq> [])"
  by (cases c) (simp_all add: honeypot_def bind_err_def js_trim_idem js_trim_Nil)

lemma handler_honeypot_general:
  assumes "httpMethod ev = str ''POST''" and "parse_body w ev = Some p"
    and "honeypot (fst p) = Inr True"
  shows "handler w ev =
     (Inr \<lparr> statusCode = 200, resp_headers = cors_headers,
            resp_body = Json (JObj [(str ''ok'', JBool True), (str ''silent'', JBool True)]) \<rparr>, [])"
proof -
  have "str ''POST'' \<noteq> str ''OPTIONS''" by (simp add: str_def)
  with assms show ?thesis by (simp add: handler_def)
qed

text \<open>
  Claim C1, as the code has it. For a POST request whose body parsed and whose field
  \<^verbatim>\<open>company\<close> is a string that is not blank, the handler returns status 200 with the body
  \<^verbatim>\<open>{ok: true, silent: true}\<close> and does nothing to the outside: no email, no webhook call.
  Nothing is assumed of the other fields, so the check of the honeypot comes before the required-field check.
\<close>

theorem honeypot_silent:
  assumes "httpMethod ev = str ''POST''" and "parse_body w ev = Some p"
    and "get_prop (fst p) (str ''company'') = Inr (JStr s)" and "js_trim s \<noteq> []"
  shows "handler w ev =
     (Inr \<lparr> statusCode = 200, resp_headers = cors_headers,
            resp_body = Json (JObj [(str ''ok'', JBool True), (str ''silent'', JBool True)]) \<rparr>, [])"
proof -
  have "honeypot (fst p) = Inr True"
    using honeypot_iff[OF assms(3)] assms(4) by simp
  with assms(1,2) show ?thesis by (rule handler_honeypot_general)
qed

lemmas sample_defs = sample_world_def sample_post_def sample_fields_def sample_lead_def
  sample_file_def sample_parts_def sample_uploads_def

lemmas parse_defs = parse_body_def content_type_def str_or_def startsWith_def parseMultipart_def

text \<open>Claim C1 on a JSON request whose \<^verbatim>\<open>company\<close> is filled in.\<close>

theorem honeypot_silent_witness:
  "httpMethod (sample_post ''application/json'') = str ''POST''
   \<and> parse_body (sample_world BusboyError (Some (JObj [(str ''company'', JStr (str '' Acme Bots ''))])))
         (sample_post ''application/json'') = Some (JObj [(str ''company'', JStr (str '' Acme Bots ''))], [])
   \<and> js_trim (str '' Acme Bots '') = str ''Acme Bots''
   \<and> handler (sample_world BusboyError (Some (JObj [(str ''company'', JStr (str '' Acme Bots ''))])))
         (sample_post ''application/json'') =
     (Inr \<lparr> statusCode = 200, resp_headers = cors_headers,
            resp_body = Json (JObj [(str ''ok'', JBool True), (str ''silent'', JBool True)]) \<rparr>, [])"
  using honeypot_silent[of "sample_post ''application/json''"
      "sample_world BusboyError (Some (JObj [(str ''company'', JStr (str '' Acme Bots ''))]))"
      "(JObj [(str ''company'', JStr (str '' Acme Bots ''))], [])" "str '' Acme Bots ''"]
  by (simp add: sample_defs parse_defs lookup_prop_def js_trim_def is_space_def str_def)

section \<open>Properties of the email rows\<close>

lemma js_error_is_TypeError: "(e::js_error) = TypeError"
  by (cases e) simp

lemma hasVal_ok:
  "row_value_ok v \<Longrightarrow>
   hasVal nt v = Inr (v \<noteq> JUndefined \<and> v \<noteq> JNull \<and> js_trim (print nt v) \<noteq> [])"
  by (auto simp: hasVal_def js_String_def row_value_ok_def bind_err_def)

lemma hasVal_throws: "\<not> row_value_ok v \<Longrightarrow> hasVal nt v = Inl TypeError"
  by (auto simp: hasVal_def js_String_def row_value_ok_def bind_err_def)

lemma hasVal_Inr_ok: "hasVal nt v = Inr b \<Longrightarrow> row_value_ok v"
  using hasVal_throws[of v nt] by auto

lemma hasVal_True_String: "hasVal nt v = Inr True \<Longrightarrow> js_String nt v = Inr (print nt v)"
  by (auto simp: hasVal_def js_String_def bind_err_def split: if_splits)

lemma preferred_step_ok:
  "row_value_ok (lookup_prop m k) \<Longrightarrow>
   preferred_step nt m k (Inr st) =
     Inr (if hasVal nt (lookup_prop m k) = Inr True
          then (fst st @ [(k, print nt (lookup_prop m k))], List.insert k (snd st))
          else st)"
  by (cases "hasVal nt (lookup_prop m k) = Inr True")
     (auto simp: preferred_step_def bind_err_def hasVal_True_String hasVal_ok)

lemma preferred_step_throws:
  "\<not> row_value_ok (lookup_prop m k) \<Longrightarrow> preferred_step nt m k (Inr st) = Inl TypeError"
  by (simp add: preferred_step_def bind_err_def hasVal_throws)

lemma preferred_fold_Inl: "fold (preferred_step nt m) ks (Inl e) = Inl e"
  by (induction ks) (simp_all add: preferred_step_def bind_err_def)

lemma preferred_fold:
  "fold (preferred_step nt m) ks (Inr st) =
     (if list_all (\<lambda>k. row_value_ok (lookup_prop m k)) ks
      then Inr (fst st @ map (\<lambda>k. (k, print nt (lookup_prop m k)))
                           (filter (\<lambda>k. hasVal nt (lookup_prop m k) = Inr True) ks),
                fold (\<lambda>k inc. if hasVal nt (lookup_prop m k) = Inr True then List.insert k inc else inc)
                  ks (snd st))
      else Inl TypeError)"
proof (induction ks arbitrary: st)
  case Nil
  show ?case by simp
next
  case (Cons k ks)
  show ?case
  proof (cases "row_value_ok (lookup_prop m k)")
    case True
    show ?thesis
      by (simp add: preferred_step_ok[OF True] Cons.IH True)
  next
    case False
    show ?thesis
      by (simp add: preferred_step_throws[OF False] preferred_fold_Inl False)
  qed
qed

lemma included_fold_set:
  "set (fold (\<lambda>k inc. if P k then List.insert k inc else inc) ks inc0)
     = set inc0 \<union> {k \<in> set ks. P k}"
  by (induction ks arbitrary: inc0) auto

lemma rest_step_ok:
  "row_value_ok (lookup_prop m k) \<Longrightarrow>
   rest_step nt m k (Inr rows) =
     Inr (if hasVal nt (lookup_prop m k) = Inr True
          then rows @ [(k, print nt (lookup_prop m k))] else rows)"
  by (cases "hasVal nt (lookup_prop m k) = Inr True")
     (auto simp: rest_step_def bind_err_def hasVal_True_String hasVal_ok)

lemma rest_step_throws:
  "\<not> row_value_ok (lookup_prop m k) \<Longrightarrow> rest_step nt m k (Inr rows) = Inl TypeError"
  by (simp add: rest_step_def bind_err_def hasVal_throws)

lemma rest_fold_Inl: "fold (rest_step nt m) ks (Inl e) = Inl e"
  by (induction ks) (simp_all add: rest_step_def bind_err_def)

lemma rest_fold:
  "fold (rest_step nt m) ks (Inr rows) =
     (if list_all (\<lambda>k. row_value_ok (lookup_prop m k)) ks
      then Inr (rows @ map (\<lambda>k. (k, print nt (lookup_prop m k)))
                         (filter (\<lambda>k. hasVal nt (lookup_prop m k) = Inr True) ks))
      else Inl TypeError)"
proof (induction ks arbitrary: rows)
  case Nil
  show ?case by simp
next
  case (Cons k ks)
  show ?case
  proof (cases "row_value_ok (lookup_prop m k)")
    case True
    show ?thesis
      by (simp add: rest_step_ok[OF True] Cons.IH True)
  next
    case False
    show ?thesis
      by (simp add: rest_step_throws[OF False] rest_fold_Inl False)
  qed
qed

lemma lookup_absent: "k \<notin> set (map fst kvs) \<Longrightarrow> lookup_prop kvs k = JUndefined"
  by (simp add: lookup_prop_def map_of_eq_None_iff[THEN iffD2])

text \<open>The rows of \<open>buildEmailBodies\<close>, and when there are none because a value does not
  convert to a string.\<close>

lemma build_rows_eq:
  "build_rows nt l raw =
     (if list_all (\<lambda>k. row_value_ok (lookup_prop (merged_of l raw) k)) (map fst (merged_of l raw))
      then Inr (map (\<lambda>k. (k, print nt (lookup_prop (merged_of l raw) k)))
             (filter (\<lambda>k. hasVal nt (lookup_prop (merged_of l raw) k) = Inr True) preferred
              @ sort (filter (\<lambda>k. k \<notin> set preferred
                                  \<and> hasVal nt (lookup_prop (merged_of l raw) k) = Inr True)
                        (map fst (merged_of l raw)))))
      else Inl TypeError)"
proof -
  let ?m = "merged_of l raw"
  let ?ok = "\<lambda>k. row_value_ok (lookup_prop ?m k)"
  let ?hv = "\<lambda>k. hasVal nt (lookup_prop ?m k) = Inr True"
  let ?mk = "\<lambda>k. (k, print nt (lookup_prop ?m k))"
  let ?inc = "fold (\<lambda>k inc. if ?hv k then List.insert k inc else inc) preferred []"
  let ?rem = "sort (filter (\<lambda>k. k \<notin> set ?inc) (map fst ?m))"
  have inc: "set ?inc = {k \<in> set preferred. ?hv k}"
    by (simp add: included_fold_set)
  have hv_ok: "?hv k \<Longrightarrow> ?ok k" for k
    by (rule hasVal_Inr_ok)
  have pref_ok: "list_all ?ok (map fst ?m) \<Longrightarrow> list_all ?ok preferred"
  proof -
    assume a: "list_all ?ok (map fst ?m)"
    have "?ok k" for k
    proof (cases "k \<in> set (map fst ?m)")
      case True
      with a show ?thesis by (auto simp: list_all_iff)
    next
      case False
      then show ?thesis by (simp add: lookup_absent row_value_ok_def)
    qed
    then show ?thesis by (simp add: list_all_iff)
  qed
  have cond: "(list_all ?ok preferred \<and> list_all ?ok ?rem) = list_all ?ok (map fst ?m)"
  proof
    assume ab: "list_all ?ok preferred \<and> list_all ?ok ?rem"
    have "?ok k" if "k \<in> set (map fst ?m)" for k
    proof (cases "k \<in> set ?inc")
      case True
      then have "?hv k" using inc by auto
      then show ?thesis by (rule hv_ok)
    next
      case False
      with that have "k \<in> set ?rem" by simp
      with ab show ?thesis by (auto simp: list_all_iff)
    qed
    then show "list_all ?ok (map fst ?m)" by (simp add: list_all_iff)
  next
    assume c: "list_all ?ok (map fst ?m)"
    then have "list_all ?ok ?rem" by (auto simp: list_all_iff)
    with pref_ok[OF c] show "list_all ?ok preferred \<and> list_all ?ok ?rem" by blast
  qed
  have "filter ?hv ?rem = sort (filter ?hv (filter (\<lambda>k. k \<notin> set ?inc) (map fst ?m)))"
    by (simp add: filter_sort)
  also have "filter ?hv (filter (\<lambda>k. k \<notin> set ?inc) (map fst ?m))
      = filter (\<lambda>k. k \<notin> set preferred \<and> ?hv k) (map fst ?m)"
    unfolding inc by (auto intro: filter_cong)
  finally have rest: "filter ?hv ?rem
      = sort (filter (\<lambda>k. k \<notin> set preferred \<and> ?hv k) (map fst ?m))" .
  have "build_rows nt l raw =
      (if list_all ?ok preferred
       then (if list_all ?ok ?rem
             then Inr (map ?mk (filter ?hv preferred) @ map ?mk (filter ?hv ?rem))
             else Inl TypeError)
       else Inl TypeError)"
    by (simp add: build_rows_def Let_def preferred_fold rest_fold bind_err_def)
  also have "\<dots> = (if list_all ?ok preferred \<and> list_all ?ok ?rem
       then Inr (map ?mk (filter ?hv preferred) @ map ?mk (filter ?hv ?rem))
       else Inl TypeError)"
    by simp
  finally show ?thesis
    unfolding cond rest by simp
qed

lemma relay_value_ok:
  "hasVal nt v = Inr True \<Longrightarrow> \<exists>s. relay_value nt v = Inr s"
  by (auto simp: relay_value_def hasVal_def js_String_def bind_err_def split: if_splits)

lemma relay_step_ok:
  "k \<in> set control_fields \<or> row_value_ok (lookup_prop kvs k) \<Longrightarrow>
   relay_step nt kvs k (Inr rows) =
     Inr (if k \<notin> set control_fields \<and> hasVal nt (lookup_prop kvs k) = Inr True
          then rows @ [(k, projr (relay_value nt (lookup_prop kvs k)))] else rows)"
proof (cases "k \<in> set control_fields")
  case True
  then show ?thesis by (simp add: relay_step_def bind_err_def)
next
  case False
  assume "k \<in> set control_fields \<or> row_value_ok (lookup_prop kvs k)"
  with False have ok: "row_value_ok (lookup_prop kvs k)" by blast
  show ?thesis
  proof (cases "hasVal nt (lookup_prop kvs k) = Inr True")
    case True
    from relay_value_ok[OF True] obtain s where "relay_value nt (lookup_prop kvs k) = Inr s" by blast
    with True False show ?thesis by (simp add: relay_step_def bind_err_def)
  next
    case hf: False
    with False ok show ?thesis
      by (auto simp: relay_step_def bind_err_def hasVal_ok)
  qed
qed

lemma relay_step_throws:
  "k \<notin> set control_fields \<Longrightarrow> \<not> row_value_ok (lookup_prop kvs k) \<Longrightarrow>
   relay_step nt kvs k (Inr rows) = Inl TypeError"
  by (simp add: relay_step_def bind_err_def hasVal_throws)

lemma relay_fold_Inl: "fold (relay_step nt kvs) ks (Inl e) = Inl e"
  by (induction ks) (simp_all add: relay_step_def bind_err_def)

lemma relay_fold:
  "fold (relay_step nt kvs) ks (Inr rows) =
     (if list_all (\<lambda>k. k \<in> set control_fields \<or> row_value_ok (lookup_prop kvs k)) ks
      then Inr (rows @ map (\<lambda>k. (k, projr (relay_value nt (lookup_prop kvs k))))
                   (filter (\<lambda>k. k \<notin> set control_fields \<and> hasVal nt (lookup_prop kvs k) = Inr True) ks))
      else Inl TypeError)"
proof (induction ks arbitrary: rows)
  case Nil
  show ?case by simp
next
  case (Cons k ks)
  show ?case
  proof (cases "k \<in> set control_fields \<or> row_value_ok (lookup_prop kvs k)")
    case True
    show ?thesis
      using True by (simp add: relay_step_ok[OF True] Cons.IH)
  next
    case False
    then have "relay_step nt kvs k (Inr rows) = Inl TypeError"
      by (intro relay_step_throws) auto
    with False show ?thesis by (simp add: relay_fold_Inl)
  qed
qed

lemma relay_rows_eq:
  "relay_rows nt d =
     (if list_all (\<lambda>k. k \<in> set control_fields \<or> row_value_ok (lookup_prop (own_entries d) k))
           (map fst (own_entries d))
      then Inr (map (\<lambda>k. (k, projr (relay_value nt (lookup_prop (own_entries d) k))))
             (sort (filter (\<lambda>k. k \<notin> set control_fields
                                 \<and> hasVal nt (lookup_prop (own_entries d) k) = Inr True)
                      (map fst (own_entries d)))))
      else Inl TypeError)"
  by (simp add: relay_rows_def relay_fold filter_sort list_all_iff)

text \<open>
  Claim C5, as the code has it. \<open>buildEmailBodies\<close> has rows exactly when every value of
  the merged map converts to a string (it throws otherwise). Its rows are then first the
  preferred keys that have a value in the merged map, in preferred order, then every other
  key of the merged map that has a value, ordered as \<^verbatim>\<open>sort()\<close> orders strings, each with
  the string of its value; no key is left out for being a control field.
  \<open>createEmailContent\<close> has rows exactly when every value of the data outside the four
  control fields converts to a string. Its rows are then the keys of the data that have a
  value and are not one of the four control fields, in that same order, with no preferred
  keys first, each with the string of its value.
\<close>

theorem rows_order:
  "((\<exists>rs. build_rows nt l raw = Inr rs) \<longleftrightarrow>
      list_all (\<lambda>k. row_value_ok (lookup_prop (merged_of l raw) k)) (map fst (merged_of l raw)))
   \<and> (build_rows nt l raw = Inr rows \<longrightarrow>
      map fst rows =
        filter (\<lambda>k. hasVal nt (lookup_prop (merged_of l raw) k) = Inr True) preferred
        @ sort (filter (\<lambda>k. k \<notin> set preferred
                           \<and> hasVal nt (lookup_prop (merged_of l raw) k) = Inr True)
                  (map fst (merged_of l raw)))
      \<and> map snd rows = map (\<lambda>k. print nt (lookup_prop (merged_of l raw) k)) (map fst rows))
   \<and> ((\<exists>rs. relay_rows nt d = Inr rs) \<longleftrightarrow>
      list_all (\<lambda>k. k \<in> set control_fields \<or> row_value_ok (lookup_prop (own_entries d) k))
        (map fst (own_entries d)))
   \<and> (relay_rows nt d = Inr rrows \<longrightarrow>
      map fst rrows =
        sort (filter (\<lambda>k. k \<notin> set control_fields
                         \<and> hasVal nt (lookup_prop (own_entries d) k) = Inr True)
                (map fst (own_entries d)))
      \<and> map snd rrows =
          map (\<lambda>k. projr (relay_value nt (lookup_prop (own_entries d) k))) (map fst rrows))"
proof -
  have a0: "(\<exists>rs. build_rows nt l raw = Inr rs) \<longleftrightarrow>
      list_all (\<lambda>k. row_value_ok (lookup_prop (merged_of l raw) k)) (map fst (merged_of l raw))"
    by (simp add: build_rows_eq)
  have a: "build_rows nt l raw = Inr rows \<longrightarrow>
      map fst rows =
        filter (\<lambda>k. hasVal nt (lookup_prop (merged_of l raw) k) = Inr True) preferred
        @ sort (filter (\<lambda>k. k \<notin> set preferred
                           \<and> hasVal nt (lookup_prop (merged_of l raw) k) = Inr True)
                  (map fst (merged_of l raw)))
      \<and> map snd rows = map (\<lambda>k. print nt (lookup_prop (merged_of l raw) k)) (map fst rows)"
    by (auto simp: build_rows_eq comp_def split: if_splits)
  have b0: "(\<exists>rs. relay_rows nt d = Inr rs) \<longleftrightarrow>
      list_all (\<lambda>k. k \<in> set control_fields \<or> row_value_ok (lookup_prop (own_entries d) k))
        (map fst (own_entries d))"
    by (simp add: relay_rows_eq)
  have b: "relay_rows nt d = Inr rrows \<longrightarrow>
      map fst rrows =
        sort (filter (\<lambda>k. k \<notin> set control_fields
                         \<and> hasVal nt (lookup_prop (own_entries d) k) = Inr True)
                (map fst (own_entries d)))
      \<and> map snd rrows =
          map (\<lambda>k. projr (relay_value nt (lookup_prop (own_entries d) k))) (map fst rrows)"
    by (auto simp: relay_rows_eq comp_def split: if_splits)
  from a0 a b0 b show ?thesis by blast
qed

text \<open>The rows of the sample lead with two more fields, one of them a control field, in
  both handlers.\<close>

lemma sample_rows:
  "build_rows sample_number_text sample_lead
     (JObj ((str ''zip'', JStr (str ''02110'')) # sample_fields @ [(str ''form-name'', JStr (str ''trade-in''))]))
   = Inr [(str ''name'', str ''Ann''), (str ''email'', str ''ann@example.com''),
      (str ''phone'', str ''6175551234''), (str ''vin'', str ''1HGCM82633A004352''),
      (str ''submittedAt'', str ''2025-01-01T00:00:00.000Z''),
      (str ''form-name'', str ''trade-in''), (str ''zip'', str ''02110'')]"
  by code_simp

lemma sample_relay_rows:
  "relay_rows sample_number_text
     (JObj ((str ''zip'', JStr (str ''02110'')) # sample_fields @ [(str ''form-name'', JStr (str ''trade-in''))]))
   = Inr [(str ''email'', str ''ann@example.com''), (str ''name'', str ''Ann''),
      (str ''phone'', str ''617-555-1234''), (str ''vin'', str ''1hgcm82633a004352''),
      (str ''zip'', str ''02110'')]"
  by code_simp

text \<open>When the rows of \<open>buildEmailBodies\<close> exist: the values of the raw fields are enough to
  tell, the fields of the lead are strings.\<close>

lemma update_values:
  "set (map snd (AList.update k v al)) \<subseteq> insert v (set (map snd al))"
  by (induction al) auto

lemma spread_values:
  "set (map snd (spread tgt src)) \<subseteq> set (map snd tgt) \<union> set (map snd src)"
proof (induction src arbitrary: tgt)
  case Nil
  show ?case by (simp add: spread_def)
next
  case (Cons kv src)
  obtain k v where kv: "kv = (k, v)" by (cases kv)
  have "spread tgt (kv # src) = spread (AList.update k v tgt) src"
    by (simp add: spread_def kv)
  then show ?case
    using Cons.IH[of "AList.update k v tgt"] update_values[of k v tgt] kv by auto
qed

lemma lookup_value:
  "lookup_prop kvs k = JUndefined \<or> lookup_prop kvs k \<in> set (map snd kvs)"
  by (auto simp: lookup_prop_def split: option.splits dest: map_of_SomeD intro: rev_image_eqI)

lemma lead_entries_ok: "list_all row_value_ok (map snd (lead_entries l))"
  by (simp add: lead_entries_def row_value_ok_def)

lemma merged_ok:
  assumes "list_all row_value_ok (map snd (own_entries raw))"
  shows "row_value_ok (lookup_prop (merged_of l raw) k)"
proof -
  have "set (map snd (merged_of l raw))
      \<subseteq> set (map snd (own_entries raw)) \<union> set (map snd (lead_entries l))"
    unfolding merged_of_def
    using spread_values[of "spread [] (own_entries raw)" "lead_entries l"]
      spread_values[of "[]" "own_entries raw"] by auto
  moreover have "\<forall>v\<in>set (map snd (own_entries raw)) \<union> set (map snd (lead_entries l)). row_value_ok v"
    using assms lead_entries_ok[of l] unfolding list_all_iff by blast
  ultimately have "\<forall>v\<in>set (map snd (merged_of l raw)). row_value_ok v"
    by blast
  then show ?thesis
    using lookup_value[of "merged_of l raw" k] by (auto simp: row_value_ok_def)
qed

lemma build_rows_returns:
  "list_all row_value_ok (map snd (own_entries raw)) \<Longrightarrow> \<exists>rows. build_rows nt l raw = Inr rows"
  by (simp add: build_rows_eq merged_ok list_all_iff)

lemma buildEmailBodies_returns:
  "list_all row_value_ok (map snd (own_entries raw)) \<Longrightarrow>
   \<exists>rows. build_rows nt l raw = Inr rows
      \<and> buildEmailBodies nt l raw
          = Inr \<lparr> html = build_html l rows, text_body = join nl (map text_row rows) \<rparr>"
  using build_rows_returns[of raw nt l]
  by (auto simp: buildEmailBodies_def bind_err_def)

lemma compose_returns:
  "list_all row_value_ok (map snd (own_entries raw)) \<Longrightarrow> \<exists>m. compose w l raw ups = Inr m"
  using buildEmailBodies_returns[of raw "number_text w" l]
  by (auto simp: compose_def bind_err_def)

lemma sample_fields_ok:
  "list_all row_value_ok (map snd (own_entries (JObj sample_fields)))"
  "list_all row_value_ok (map snd (own_entries (JObj (sample_fields @ [(k, JStr s)]))))"
  "list_all row_value_ok (map snd (own_entries (JObj (sample_fields @ [(k, JNum n)]))))"
  by (simp_all add: sample_fields_def row_value_ok_def)

section \<open>What the handler does, case by case\<close>

lemma post_not_options: "str ''POST'' \<noteq> str ''OPTIONS''"
  by (simp add: str_def)

lemma handler_missing_general:
  assumes "httpMethod ev = str ''POST''" and "parse_body w ev = Some p"
    and "honeypot (fst p) = Inr False"
    and "normalizeLead (toUpperCase w) (now w) (fst p) = Inr l"
    and "name l = [] \<or> email l = [] \<or> phone l = [] \<or> vin l = []"
  shows "handler w ev =
     (Inr \<lparr> statusCode = 400, resp_headers = cors_headers,
            resp_body = Plain (str ''Missing required fields'') \<rparr>, [])"
  using assms post_not_options by (simp add: handler_def)

lemma handler_delivers:
  assumes "httpMethod ev = str ''POST''" and "parse_body w ev = Some p"
    and "honeypot (fst p) = Inr False"
    and "normalizeLead (toUpperCase w) (now w) (fst p) = Inr l"
    and "name l \<noteq> []" and "email l \<noteq> []" and "phone l \<noteq> []" and "vin l \<noteq> []"
  shows "handler w ev = deliver w ev l (fst p) (snd p)"
  using assms post_not_options by (simp add: handler_def)

lemma handler_no_effect_or_deliver:
  "snd (handler w ev) = []
   \<or> (\<exists>p l. parse_body w ev = Some p \<and> normalizeLead (toUpperCase w) (now w) (fst p) = Inr l
         \<and> name l \<noteq> [] \<and> email l \<noteq> [] \<and> phone l \<noteq> [] \<and> vin l \<noteq> []
         \<and> handler w ev = deliver w ev l (fst p) (snd p))"
  by (auto simp: handler_def split: option.splits sum.splits bool.splits)

lemma deliver_sent:
  "compose w l raw ups = Inr m \<Longrightarrow> sg_send_ok w m \<Longrightarrow>
   deliver w ev l raw ups = (Inr (success_response w ev m), SendEmail m # backup w l)"
  by (simp add: deliver_def)

text \<open>
  Claim C2, as the code has it. When the body of a request parses and the normalised name,
  email, phone or VIN is blank, the handler does nothing to the outside, so no email is sent;
  and when the request is a POST that the honeypot check lets through and \<open>normalizeLead\<close>
  returns a lead, the handler returns status 400 with the plain text
  \<^verbatim>\<open>Missing required fields\<close>.
\<close>

theorem missing_required_400:
  assumes "parse_body w ev = Some p"
    and "safe_prop (fst p) (str ''name'') = Inr [] \<or> safe_prop (fst p) (str ''email'') = Inr []
         \<or> norm_phone (fst p) = Inr [] \<or> norm_vin (toUpperCase w) (fst p) = Inr []"
  shows "snd (handler w ev) = []
     \<and> (httpMethod ev = str ''POST'' \<longrightarrow> honeypot (fst p) = Inr False \<longrightarrow>
          (\<forall>l. normalizeLead (toUpperCase w) (now w) (fst p) = Inr l \<longrightarrow>
             handler w ev =
               (Inr \<lparr> statusCode = 400, resp_headers = cors_headers,
                      resp_body = Plain (str ''Missing required fields'') \<rparr>, [])))"
proof -
  have blank: "name l = [] \<or> email l = [] \<or> phone l = [] \<or> vin l = []"
    if "normalizeLead (toUpperCase w) (now w) (fst p) = Inr l" for l
    using normalizeLead_fields[OF that] assms(2) by auto
  have "snd (handler w ev) = []"
    using handler_no_effect_or_deliver[of w ev] assms(1) blank by auto
  moreover have "httpMethod ev = str ''POST'' \<longrightarrow> honeypot (fst p) = Inr False \<longrightarrow>
          (\<forall>l. normalizeLead (toUpperCase w) (now w) (fst p) = Inr l \<longrightarrow>
             handler w ev =
               (Inr \<lparr> statusCode = 400, resp_headers = cors_headers,
                      resp_body = Plain (str ''Missing required fields'') \<rparr>, []))"
    using handler_missing_general[OF _ assms(1)] blank by blast
  ultimately show ?thesis by blast
qed

lemmas world_defs = sample_world_def sample_post_def

lemma sample_parse_json:
  "parse_body (sample_world BusboyError (Some v)) (sample_post ''application/json'') = Some (v, [])"
  by (simp add: world_defs parse_defs str_def)

text \<open>Claim C2 on a JSON request with a name that is a no-break space and nothing else.\<close>

theorem missing_required_400_witness:
  "parse_body (sample_world BusboyError (Some (JObj [(str ''name'', JStr [0x00A0])])))
       (sample_post ''application/json'') = Some (JObj [(str ''name'', JStr [0x00A0])], [])
   \<and> safe_prop (JObj [(str ''name'', JStr [0x00A0])]) (str ''name'') = Inr []
   \<and> httpMethod (sample_post ''application/json'') = str ''POST''
   \<and> honeypot (JObj [(str ''name'', JStr [0x00A0])]) = Inr False
   \<and> map_sum id email (normalizeLead sample_upper sample_now (JObj [(str ''name'', JStr [0x00A0])]))
       = Inr []
   \<and> handler (sample_world BusboyError (Some (JObj [(str ''name'', JStr [0x00A0])])))
         (sample_post ''application/json'') =
       (Inr \<lparr> statusCode = 400, resp_headers = cors_headers,
              resp_body = Plain (str ''Missing required fields'') \<rparr>, [])"
proof -
  let ?raw = "JObj [(str ''name'', JStr [0x00A0])]"
  let ?w = "sample_world BusboyError (Some ?raw)"
  let ?ev = "sample_post ''application/json''"
  have p: "parse_body ?w ?ev = Some (?raw, [])" by (rule sample_parse_json)
  have b: "safe_prop ?raw (str ''name'') = Inr []"
    by (simp add: norm_defs)
  have m: "httpMethod ?ev = str ''POST''" by (simp add: sample_post_def)
  have h: "honeypot ?raw = Inr False" by (simp add: honeypot_def norm_defs)
  obtain l where l: "normalizeLead sample_upper sample_now ?raw = Inr l"
    using normalizeLead_throws_iff_vin[of ?raw JUndefined sample_upper sample_now]
    by (cases "normalizeLead sample_upper sample_now ?raw")
       (auto simp: lookup_prop_def str_def js_error_is_TypeError)
  have e: "map_sum id email (normalizeLead sample_upper sample_now ?raw) = Inr []"
    by (simp add: norm_defs)
  have w: "toUpperCase ?w = sample_upper" "now ?w = sample_now" by (simp_all add: sample_world_def)
  from missing_required_400[of ?w ?ev "(?raw, [])"] p b m h l w
  have "handler ?w ?ev =
       (Inr \<lparr> statusCode = 400, resp_headers = cors_headers,
              resp_body = Plain (str ''Missing required fields'') \<rparr>, [])"
    by simp
  with p b m h e show ?thesis by blast
qed

text \<open>
  Claim C2 as the specification words it, for every input: a request whose normalised name is
  blank and whose \<^verbatim>\<open>company\<close> is filled in is answered with 200, not 400.
\<close>

theorem blank_name_honeypot_counterexample:
  "parse_body (sample_world BusboyError (Some (JObj [(str ''company'', JStr (str ''Acme''))])))
       (sample_post ''application/json'') = Some (JObj [(str ''company'', JStr (str ''Acme''))], [])
   \<and> map_sum id name (normalizeLead sample_upper sample_now
         (JObj [(str ''company'', JStr (str ''Acme''))])) = Inr []
   \<and> map_sum id statusCode
        (fst (handler (sample_world BusboyError (Some (JObj [(str ''company'', JStr (str ''Acme''))])))
           (sample_post ''application/json''))) = Inr 200"
proof -
  let ?raw = "JObj [(str ''company'', JStr (str ''Acme''))]"
  let ?w = "sample_world BusboyError (Some ?raw)"
  let ?ev = "sample_post ''application/json''"
  have p: "parse_body ?w ?ev = Some (?raw, [])" by (rule sample_parse_json)
  have n: "map_sum id name (normalizeLead sample_upper sample_now ?raw) = Inr []"
    by (simp add: norm_defs)
  have m: "httpMethod ?ev = str ''POST''" by (simp add: sample_post_def)
  have h: "honeypot ?raw = Inr True" by (simp add: honeypot_def norm_defs)
  have "map_sum id statusCode (fst (handler ?w ?ev)) = Inr 200"
    using handler_honeypot_general[of ?ev ?w "(?raw, [])"] p m h by simp
  with p n show ?thesis by blast
qed

text \<open>The sample fields as a JSON request, with one more field: the lead is delivered.\<close>

lemma sample_honeypot:
  "honeypot (JObj sample_fields) = Inr False"
  "honeypot (JObj (sample_fields @ [(str ''company'', JNum n)])) = Inr False"
  by (simp_all add: sample_fields_def honeypot_def norm_defs)

lemma sample_normalize:
  "normalizeLead sample_upper sample_now (JObj sample_fields) = Inr sample_lead"
  "normalizeLead sample_upper sample_now (JObj (sample_fields @ [(str ''company'', JNum n)]))
     = Inr sample_lead"
  "normalizeLead sample_upper sample_now (JObj (sample_fields @ [(str ''year'', JStr (str ''<script>''))]))
     = Inr (sample_lead\<lparr>year := str ''<script>''\<rparr>)"
  by (simp_all add: sample_fields_def sample_lead_def norm_defs)

lemma sample_wantsJson: "wantsJson w (sample_post ct)"
  by (simp add: wantsJson_def sample_post_def str_or_def startsWith_def str_def)

lemma sample_backup:
  "backup (sample_world run js) l = [WebhookPost (str ''https://sheets.example/hook'') l]"
  by (simp add: backup_def sample_world_def str_def)

lemma sample_lead_filled:
  "name sample_lead \<noteq> []" "email sample_lead \<noteq> []" "phone sample_lead \<noteq> []"
  "vin sample_lead \<noteq> []"
  by (simp_all add: sample_lead_def str_def)

lemma sample_handler_json:
  assumes "honeypot raw = Inr False"
    and "normalizeLead sample_upper sample_now raw = Inr sample_lead"
    and "list_all row_value_ok (map snd (own_entries raw))"
  shows "handler (sample_world BusboyError (Some raw)) (sample_post ''application/json'')
   = (Inr \<lparr> statusCode = 200, resp_headers = cors_headers,
             resp_body = Json (JObj [(str ''ok'', JBool True), (str ''files'', JNum 0)]) \<rparr>,
      [SendEmail (projr (compose (sample_world BusboyError (Some raw)) sample_lead raw [])),
       WebhookPost (str ''https://sheets.example/hook'') sample_lead])"
proof -
  let ?w = "sample_world BusboyError (Some raw)"
  let ?ev = "sample_post ''application/json''"
  have w: "toUpperCase ?w = sample_upper" "now ?w = sample_now" by (simp_all add: sample_world_def)
  have d: "handler ?w ?ev = deliver ?w ?ev sample_lead raw []"
    using handler_delivers[of ?ev ?w "(raw, [])" sample_lead] sample_parse_json[of raw] assms(1,2)
      sample_lead_filled w
    by (simp add: sample_post_def)
  from compose_returns[OF assms(3)] obtain m where m: "compose ?w sample_lead raw [] = Inr m"
    by blast
  have ok: "sg_send_ok ?w m" by (simp add: sample_world_def)
  have att: "attachments m = None"
    using m by (auto simp: compose_def bind_err_def toAttachments_def split: sum.splits)
  show ?thesis
    unfolding d deliver_sent[OF m ok] m
    by (simp add: success_response_def sample_wantsJson sample_backup att)
qed

text \<open>
  Claim C1 as the specification words it, for every non-blank \<^verbatim>\<open>company\<close>: a request
  whose \<^verbatim>\<open>company\<close> is the number 123 is not answered silently; the lead is sent by email
  and posted to the webhook.
\<close>

theorem nonstring_company_counterexample:
  "get_prop (JObj (sample_fields @ [(str ''company'', JNum 123)])) (str ''company'') = Inr (JNum 123)
   \<and> handler (sample_world BusboyError (Some (JObj (sample_fields @ [(str ''company'', JNum 123)]))))
       (sample_post ''application/json'')
   = (Inr \<lparr> statusCode = 200, resp_headers = cors_headers,
             resp_body = Json (JObj [(str ''ok'', JBool True), (str ''files'', JNum 0)]) \<rparr>,
      [SendEmail (projr (compose
          (sample_world BusboyError (Some (JObj (sample_fields @ [(str ''company'', JNum 123)]))))
          sample_lead (JObj (sample_fields @ [(str ''company'', JNum 123)])) [])),
       WebhookPost (str ''https://sheets.example/hook'') sample_lead])"
proof -
  have "get_prop (JObj (sample_fields @ [(str ''company'', JNum 123)])) (str ''company'')
      = Inr (JNum 123)"
    by (simp add: sample_fields_def lookup_prop_def str_def)
  with sample_handler_json[OF sample_honeypot(2) sample_normalize(2) sample_fields_ok(3)]
  show ?thesis by blast
qed

section \<open>The cap on attachments\<close>

lemma toAttachments_length: "length (toAttachments b64 files) \<le> 8"
  by (simp add: toAttachments_def)

lemma toAttachments_first8:
  "toAttachments b64 (take 8 (filter real_file files)) = toAttachments b64 files"
proof -
  have "filter real_file (take 8 (filter real_file files)) = take 8 (filter real_file files)"
    by (rule filter_True) (auto dest: in_set_takeD)
  then show ?thesis by (simp add: toAttachments_def)
qed

lemma backup_no_email: "SendEmail m \<notin> set (backup w l)"
  by (simp add: backup_def split: option.splits)

lemma deliver_emails:
  "SendEmail m \<in> set (snd (deliver w ev l raw ups)) \<Longrightarrow> compose w l raw ups = Inr m"
  using backup_no_email[of m w l]
  by (auto simp: deliver_def split: sum.splits if_splits)

lemma compose_attachments:
  "compose w l raw ups = Inr m \<Longrightarrow>
   attachments m =
     (if toAttachments (base64 w) ups \<noteq> [] then Some (toAttachments (base64 w) ups) else None)"
  by (auto simp: compose_def bind_err_def split: sum.splits)

lemma deliver_files_count:
  assumes "fst (deliver w ev l raw ups) = Inr r"
    and "resp_body r = Json (JObj [(str ''ok'', JBool True), (str ''files'', JNum n)])"
  shows "n = of_nat (length (toAttachments (base64 w) ups))"
proof (cases "compose w l raw ups")
  case (Inl e)
  with assms(1) show ?thesis by (simp add: deliver_def)
next
  case (Inr m)
  from compose_attachments[OF Inr] assms Inr show ?thesis
    by (auto simp: deliver_def success_response_def split: if_splits)
qed

text \<open>
  Claim C10. \<open>toAttachments\<close> returns at most 8 attachments, those of the first 8 real
  files. Every email the handler hands to SendGrid carries the attachments that
  \<open>toAttachments\<close> makes of the parsed uploads (none when there are none), so at most 8;
  and the number of files in a JSON success response is at most 8.
\<close>

theorem at_most_8_attachments:
  "length (toAttachments b64 files) \<le> 8
   \<and> toAttachments b64 (take 8 (filter real_file files)) = toAttachments b64 files
   \<and> (\<forall>m p. SendEmail m \<in> set (snd (handler w ev)) \<longrightarrow> parse_body w ev = Some p \<longrightarrow>
          attachments m = (if toAttachments (base64 w) (snd p) \<noteq> []
                           then Some (toAttachments (base64 w) (snd p)) else None))
   \<and> (\<forall>m a. SendEmail m \<in> set (snd (handler w ev)) \<longrightarrow> attachments m = Some a \<longrightarrow> length a \<le> 8)
   \<and> (\<forall>r n. fst (handler w ev) = Inr r \<longrightarrow>
          resp_body r = Json (JObj [(str ''ok'', JBool True), (str ''files'', JNum n)]) \<longrightarrow> n \<le> 8)"
proof -
  have sent: "\<And>m p. SendEmail m \<in> set (snd (handler w ev)) \<Longrightarrow> parse_body w ev = Some p \<Longrightarrow>
      \<exists>l. compose w l (fst p) (snd p) = Inr m"
  proof -
    fix m p assume m: "SendEmail m \<in> set (snd (handler w ev))" and p: "parse_body w ev = Some p"
    from handler_no_effect_or_deliver[of w ev] m obtain p' l where
      "parse_body w ev = Some p'" "handler w ev = deliver w ev l (fst p') (snd p')" by auto
    with m p show "\<exists>l. compose w l (fst p) (snd p) = Inr m"
      by (auto dest: deliver_emails)
  qed
  have parsed: "\<And>m. SendEmail m \<in> set (snd (handler w ev)) \<Longrightarrow> \<exists>p. parse_body w ev = Some p"
    using handler_no_effect_or_deliver[of w ev] by auto
  have c3: "\<forall>m p. SendEmail m \<in> set (snd (handler w ev)) \<longrightarrow> parse_body w ev = Some p \<longrightarrow>
          attachments m = (if toAttachments (base64 w) (snd p) \<noteq> []
                           then Some (toAttachments (base64 w) (snd p)) else None)"
    using sent compose_attachments by metis
  have c4: "\<forall>m a. SendEmail m \<in> set (snd (handler w ev)) \<longrightarrow> attachments m = Some a \<longrightarrow> length a \<le> 8"
  proof (intro allI impI)
    fix m a assume m: "SendEmail m \<in> set (snd (handler w ev))" and a: "attachments m = Some a"
    from parsed[OF m] obtain p where p: "parse_body w ev = Some p" by blast
    from c3 m p a have "a = toAttachments (base64 w) (snd p)" by (auto split: if_splits)
    then show "length a \<le> 8" by (simp add: toAttachments_length)
  qed
  have c5: "\<forall>r n. fst (handler w ev) = Inr r \<longrightarrow>
          resp_body r = Json (JObj [(str ''ok'', JBool True), (str ''files'', JNum n)]) \<longrightarrow> n \<le> 8"
  proof (intro allI impI)
    fix r n assume r: "fst (handler w ev) = Inr r"
      and b: "resp_body r = Json (JObj [(str ''ok'', JBool True), (str ''files'', JNum n)])"
    show "n \<le> 8"
    proof (cases "\<exists>p l. handler w ev = deliver w ev l (fst p) (snd p)")
      case True
      then obtain p l where "handler w ev = deliver w ev l (fst p) (snd p)" by blast
      with r b have "n = of_nat (length (toAttachments (base64 w) (snd p)))"
        using deliver_files_count by metis
      then show ?thesis using toAttachments_length[of "base64 w" "snd p"] by simp
    next
      case False
      have ne: "str ''silent'' \<noteq> str ''files''" by (simp add: str_def)
      from False r b ne show ?thesis
        by (auto simp: handler_def split: if_splits option.splits sum.splits bool.splits)
    qed
  qed
  from toAttachments_length toAttachments_first8 c3 c4 c5 show ?thesis by blast
qed

text \<open>The sample multipart submission, step by step.\<close>

lemma sample_parse:
  "parse_body (sample_world (BusboyFinish sample_parts) None) (sample_post ''multipart/form-data; boundary=x'')
     = Some (JObj sample_fields, sample_uploads)"
  by (simp add: sample_defs parse_defs on_file_def on_data_def js_trim_def is_space_def str_def)

lemma sample_attachments:
  "map att_filename (toAttachments b64 sample_uploads)
     = map str [''a.jpg'', ''b.jpg'', ''c.jpg'', ''d.jpg'', ''e.jpg'', ''f.jpg'', ''g.jpg'', ''h.jpg'']"
  by (simp add: sample_defs toAttachments_def real_file_def js_trim_def is_space_def str_def)

lemma sample_handler:
  "handler (sample_world (BusboyFinish sample_parts) None) (sample_post ''multipart/form-data; boundary=x'')
   = (Inr \<lparr> statusCode = 200, resp_headers = cors_headers,
             resp_body = Json (JObj [(str ''ok'', JBool True), (str ''files'', JNum 8)]) \<rparr>,
      [SendEmail (projr (compose (sample_world (BusboyFinish sample_parts) None) sample_lead
                    (JObj sample_fields) sample_uploads)),
       WebhookPost (str ''https://sheets.example/hook'') sample_lead])"
proof -
  let ?w = "sample_world (BusboyFinish sample_parts) None"
  let ?ev = "sample_post ''multipart/form-data; boundary=x''"
  have w: "toUpperCase ?w = sample_upper" "now ?w = sample_now" by (simp_all add: sample_world_def)
  have len: "length (toAttachments (base64 ?w) sample_uploads) = 8"
    using sample_attachments[of "base64 ?w", THEN arg_cong, of length] by simp
  have d: "handler ?w ?ev = deliver ?w ?ev sample_lead (JObj sample_fields) sample_uploads"
    using handler_delivers[of ?ev ?w "(JObj sample_fields, sample_uploads)" sample_lead]
      sample_parse sample_honeypot(1) sample_normalize(1) sample_lead_filled w
    by (simp add: sample_post_def)
  from compose_returns[OF sample_fields_ok(1)] obtain m where
    m: "compose ?w sample_lead (JObj sample_fields) sample_uploads = Inr m" by blast
  have ok: "sg_send_ok ?w m" by (simp add: sample_world_def)
  have ne: "toAttachments (base64 ?w) sample_uploads \<noteq> []" using len by auto
  have att: "attachments m = Some (toAttachments (base64 ?w) sample_uploads)"
    using compose_attachments[OF m] ne by simp
  show ?thesis
    unfolding d deliver_sent[OF m ok] m
    by (simp add: success_response_def sample_wantsJson sample_backup att len)
qed

text \<open>Claim C10 on the sample submission with nine photos: eight are attached and the
  response counts eight.\<close>

theorem at_most_8_attachments_witness:
  "SendEmail (projr (compose (sample_world (BusboyFinish sample_parts) None) sample_lead
                    (JObj sample_fields) sample_uploads))
     \<in> set (snd (handler (sample_world (BusboyFinish sample_parts) None)
                    (sample_post ''multipart/form-data; boundary=x'')))
   \<and> parse_body (sample_world (BusboyFinish sample_parts) None)
        (sample_post ''multipart/form-data; boundary=x'') = Some (JObj sample_fields, sample_uploads)
   \<and> length sample_uploads = 9
   \<and> map_option (map att_filename)
        (attachments (projr (compose (sample_world (BusboyFinish sample_parts) None) sample_lead
                    (JObj sample_fields) sample_uploads)))
      = Some (map str [''a.jpg'', ''b.jpg'', ''c.jpg'', ''d.jpg'', ''e.jpg'', ''f.jpg'', ''g.jpg'', ''h.jpg''])
   \<and> map_sum id resp_body (fst (handler (sample_world (BusboyFinish sample_parts) None)
                    (sample_post ''multipart/form-data; boundary=x'')))
      = Inr (Json (JObj [(str ''ok'', JBool True), (str ''files'', JNum 8)]))"
proof -
  let ?w = "sample_world (BusboyFinish sample_parts) None"
  let ?ev = "sample_post ''multipart/form-data; boundary=x''"
  let ?m = "projr (compose ?w sample_lead (JObj sample_fields) sample_uploads)"
  note cap = at_most_8_attachments[of "base64 ?w" sample_uploads ?w ?ev]
  have sent: "SendEmail ?m \<in> set (snd (handler ?w ?ev))"
    by (simp add: sample_handler)
  have names: "map att_filename (toAttachments (base64 ?w) sample_uploads)
      = map str [''a.jpg'', ''b.jpg'', ''c.jpg'', ''d.jpg'', ''e.jpg'', ''f.jpg'', ''g.jpg'', ''h.jpg'']"
    by (rule sample_attachments)
  then have ne: "toAttachments (base64 ?w) sample_uploads \<noteq> []" by auto
  from cap sent sample_parse
  have att: "attachments ?m = Some (toAttachments (base64 ?w) sample_uploads)"
    using ne by auto
  have nine: "length sample_uploads = 9" by (simp add: sample_uploads_def)
  have resp: "map_sum id resp_body (fst (handler ?w ?ev))
      = Inr (Json (JObj [(str ''ok'', JBool True), (str ''files'', JNum 8)]))"
    by (simp add: sample_handler)
  show ?thesis
    using sent sample_parse nine att names resp by simp
qed

section \<open>Control fields in the rows\<close>

text \<open>
  Claim C5 as the specification words it: the Form Intake Handler renders the control field
  \<^verbatim>\<open>form-name\<close> as a row.
\<close>

theorem control_field_rendered_counterexample:
  "map_sum id (\<lambda>rows. (str ''form-name'', str ''trade-in'') \<in> set rows)
     (build_rows sample_number_text sample_lead
        (JObj ((str ''zip'', JStr (str ''02110'')) # sample_fields
               @ [(str ''form-name'', JStr (str ''trade-in''))])))
   = Inr True"
  by (simp add: sample_rows)

text \<open>Claim C5 on the sample lead with two more fields, in both handlers.\<close>

theorem rows_order_witness:
  "build_rows sample_number_text sample_lead
     (JObj ((str ''zip'', JStr (str ''02110'')) # sample_fields @ [(str ''form-name'', JStr (str ''trade-in''))]))
   = Inr [(str ''name'', str ''Ann''), (str ''email'', str ''ann@example.com''),
      (str ''phone'', str ''6175551234''), (str ''vin'', str ''1HGCM82633A004352''),
      (str ''submittedAt'', str ''2025-01-01T00:00:00.000Z''),
      (str ''form-name'', str ''trade-in''), (str ''zip'', str ''02110'')]
   \<and> relay_rows sample_number_text
     (JObj ((str ''zip'', JStr (str ''02110'')) # sample_fields @ [(str ''form-name'', JStr (str ''trade-in''))]))
   = Inr [(str ''email'', str ''ann@example.com''), (str ''name'', str ''Ann''),
      (str ''phone'', str ''617-555-1234''), (str ''vin'', str ''1hgcm82633a004352''),
      (str ''zip'', str ''02110'')]
   \<and> filter (\<lambda>k. hasVal sample_number_text (lookup_prop (merged_of sample_lead
        (JObj ((str ''zip'', JStr (str ''02110'')) # sample_fields @ [(str ''form-name'', JStr (str ''trade-in''))]))) k) = Inr True) preferred
      @ sort (filter (\<lambda>k. k \<notin> set preferred \<and> hasVal sample_number_text (lookup_prop (merged_of sample_lead
        (JObj ((str ''zip'', JStr (str ''02110'')) # sample_fields @ [(str ''form-name'', JStr (str ''trade-in''))]))) k) = Inr True)
          (map fst (merged_of sample_lead
        (JObj ((str ''zip'', JStr (str ''02110'')) # sample_fields @ [(str ''form-name'', JStr (str ''trade-in''))])))))
     = map str [''name'', ''email'', ''phone'', ''vin'', ''submittedAt'', ''form-name'', ''zip'']"
  using rows_order[of sample_number_text sample_lead
     "JObj ((str ''zip'', JStr (str ''02110'')) # sample_fields @ [(str ''form-name'', JStr (str ''trade-in''))])"
     "[(str ''name'', str ''Ann''), (str ''email'', str ''ann@example.com''),
      (str ''phone'', str ''6175551234''), (str ''vin'', str ''1HGCM82633A004352''),
      (str ''submittedAt'', str ''2025-01-01T00:00:00.000Z''),
      (str ''form-name'', str ''trade-in''), (str ''zip'', str ''02110'')]"
     "JObj ((str ''zip'', JStr (str ''02110'')) # sample_fields @ [(str ''form-name'', JStr (str ''trade-in''))])"
     "[(str ''email'', str ''ann@example.com''), (str ''name'', str ''Ann''),
      (str ''phone'', str ''617-555-1234''), (str ''vin'', str ''1hgcm82633a004352''),
      (str ''zip'', str ''02110'')]"]
    sample_rows sample_relay_rows
  by simp

section \<open>Properties of the HTML body\<close>

lemma replace_char_set:
  "set (replace_char c r s) = (set s - {c}) \<union> (if c \<in> set s then set r else {})"
  by (induction s) (auto simp: replace_char_def)

lemma escape_no_angle:
  "of_char CHR ''<'' \<notin> set (escape s) \<and> of_char CHR ''>'' \<notin> set (escape s)"
  by (auto simp: escape_def replace_char_set str_def split: if_splits)

lemma js_includes_here: "js_includes (p @ post) p"
proof (cases "p @ post")
  case Nil
  then show ?thesis by simp
next
  case (Cons c cs)
  have "startsWith (p @ post) p" by (simp add: startsWith_def)
  with Cons show ?thesis by simp
qed

lemma js_includes_append: "js_includes (pre @ p @ post) p"
  by (induction pre) (simp_all add: js_includes_here)

lemma html_holds_vehicle_line:
  "buildEmailBodies nt l raw = Inr b \<Longrightarrow> js_includes (html b) (vehicle_line l)"
proof -
  assume "buildEmailBodies nt l raw = Inr b"
  then obtain rows where "html b = build_html l rows"
    by (auto simp: buildEmailBodies_def bind_err_def split: sum.splits)
  then have "html b =
      html_head @ vehicle_line l @
        ((if trim l \<noteq> [] then str '' '' @ en_dash @ str '' '' @ escape (trim l) else [])
         @ html_table_open @ concat (map html_row rows) @ html_foot l)"
    by (simp add: build_html_def html_summary_def)
  then show ?thesis by (simp only: js_includes_append)
qed

text \<open>
  Claim C4 on a submission whose year is \<^verbatim>\<open><script>\<close>: the HTML body of
  \<open>buildEmailBodies\<close> holds the value as it is, in the line above the table, where year, make
  and model are interpolated without \<^verbatim>\<open>escape\<close>.
\<close>

theorem vehicle_line_not_escaped:
  "normalizeLead sample_upper sample_now
     (JObj (sample_fields @ [(str ''year'', JStr (str ''<script>''))]))
     = Inr (sample_lead\<lparr>year := str ''<script>''\<rparr>)
   \<and> (case buildEmailBodies nt (sample_lead\<lparr>year := str ''<script>''\<rparr>)
                (JObj (sample_fields @ [(str ''year'', JStr (str ''<script>''))])) of
         Inl e \<Rightarrow> False
       | Inr b \<Rightarrow> js_includes (html b) (str ''<script>''))"
proof -
  let ?l = "sample_lead\<lparr>year := str ''<script>''\<rparr>"
  let ?raw = "JObj (sample_fields @ [(str ''year'', JStr (str ''<script>''))])"
  have v: "vehicle_line ?l = str ''<script>''"
    by (simp add: vehicle_line_def sample_lead_def)
  from buildEmailBodies_returns[OF sample_fields_ok(2)] obtain b where
    b: "buildEmailBodies nt ?l ?raw = Inr b" by blast
  from html_holds_vehicle_line[OF b] v have "js_includes (html b) (str ''<script>'')" by simp
  with b sample_normalize(3) show ?thesis by simp
qed

text \<open>In a row of the table the same value is escaped.\<close>

lemma row_escaped:
  "html_row (str ''year'', str ''<script>'') = concat
     [nl, str ''        <tr>'', nl,
      str ''          <th align=\"left\" style=\"text-transform:capitalize;vertical-align:top;color:#111827;padding:6px 10px 6px 0;\">year</th>'', nl,
      str ''          <td style=\"vertical-align:top;color:#111827;padding:6px 0;\">&lt;script&gt;</td>'', nl,
      str ''        </tr>'', nl,
      str ''      '']"
  by (simp add: html_row_def escape_def replace_char_def str_def)

text \<open>The list of photos of the relay handler holds a filename as it is.\<close>

lemma filesHtml_not_escaped:
  "js_includes (filesHtml [\<lparr> url = u, fd_filename = str ''<script>'', fd_type = ty \<rparr>]) (str ''<script>'')"
proof -
  have ne: "str ''<script>'' \<noteq> []" by (simp add: str_def)
  have "filesHtml [\<lparr> url = u, fd_filename = str ''<script>'', fd_type = ty \<rparr>]
      = (str ''<ul><li><a href='' @ str [CHR 0x22] @ u @ str [CHR 0x22] @ str ''>'')
        @ str ''<script>'' @ str ''</a></li></ul>''"
    using ne by (simp add: filesHtml_def str_or_def str_def)
  then show ?thesis by (simp only: js_includes_append)
qed

section \<open>Properties of the attachment fetcher\<close>


lemma settle_failed:
  "fetched_size out = None \<Longrightarrow> settle b64 f out t = (None, t)"
  by (cases out) (simp_all add: settle_def fetched_size_def)

lemma settle_admitted:
  "fetched_size out = Some n \<Longrightarrow>
   n \<le> MAX_EACH_MB * 1024 * 1024 \<and> t + n \<le> MAX_TOTAL_MB * 1024 * 1024 \<Longrightarrow>
   settle b64 f out t =
     (Some \<lparr> content = b64 (case out of Fetched buf \<Rightarrow> buf | _ \<Rightarrow> []),
              att_filename = fd_filename f,
              att_type = str_or (Some (fd_type f)) (str ''application/octet-stream''),
              disposition = str ''attachment'' \<rparr>, t + n)"
  by (cases out) (auto simp: settle_def fetched_size_def Let_def)

lemma settle_omitted:
  "fetched_size out = Some n \<Longrightarrow>
   \<not> (n \<le> MAX_EACH_MB * 1024 * 1024 \<and> t + n \<le> MAX_TOTAL_MB * 1024 * 1024) \<Longrightarrow>
   settle b64 f out t = (None, t)"
  by (cases out) (auto simp: settle_def fetched_size_def Let_def)

lemma first_fit_failed:
  "fetched_size (outcome i) = None \<Longrightarrow>
   first_fit outcome (i # rest) t = first_fit outcome rest t"
  by simp

lemma first_fit_admitted:
  "fetched_size (outcome i) = Some n \<Longrightarrow>
   n \<le> MAX_EACH_MB * 1024 * 1024 \<and> t + n \<le> MAX_TOTAL_MB * 1024 * 1024 \<Longrightarrow>
   first_fit outcome (i # rest) t = i # first_fit outcome rest (t + n)"
  by simp

lemma first_fit_omitted:
  "fetched_size (outcome i) = Some n \<Longrightarrow>
   \<not> (n \<le> MAX_EACH_MB * 1024 * 1024 \<and> t + n \<le> MAX_TOTAL_MB * 1024 * 1024) \<Longrightarrow>
   first_fit outcome (i # rest) t = first_fit outcome rest t"
  by auto

lemma first_fit_subset: "set (first_fit outcome order t) \<subseteq> set order"
  by (induction order arbitrary: t) (auto split: option.splits if_splits)

lemma fold_settle_length:
  "length (snd (fold (settle_at b64 cs outcome) order st)) = length (snd st)"
  by (induction order arbitrary: st) (simp_all add: settle_at_def Let_def)

lemma fold_settle_nth:
  assumes "distinct order" and "j < length res"
  shows "snd (fold (settle_at b64 cs outcome) order (t, res)) ! j =
     (if j \<in> set order
      then (if j \<in> set (first_fit outcome order t)
            then Some (attachment_at b64 cs outcome j) else None)
      else res ! j)"
  using assms
proof (induction order arbitrary: t res)
  case Nil
  show ?case by simp
next
  case (Cons i rest)
  let ?r = "settle b64 (cs ! i) (outcome i) t"
  have d: "distinct rest" and i: "i \<notin> set rest" using Cons.prems(1) by auto
  have len: "j < length (res[i := fst ?r])" using Cons.prems(2) by simp
  have step: "fold (settle_at b64 cs outcome) (i # rest) (t, res)
      = fold (settle_at b64 cs outcome) rest (snd ?r, res[i := fst ?r])"
    by (simp add: settle_at_def Let_def)
  have IH: "snd (fold (settle_at b64 cs outcome) rest (u, res[i := x])) ! j =
     (if j \<in> set rest
      then (if j \<in> set (first_fit outcome rest u)
            then Some (attachment_at b64 cs outcome j) else None)
      else res[i := x] ! j)" for u x
    using Cons.IH[OF d, of "res[i := x]" u] Cons.prems(2) by simp
  have notin: "i \<notin> set (first_fit outcome rest u)" for u
    using first_fit_subset[of outcome rest u] i by blast
  have upd: "res[i := x] ! j = (if j = i then x else res ! j)" for x
    using Cons.prems(2) by (auto simp: nth_list_update)
  show ?case
  proof (cases "fetched_size (outcome i)")
    case None
    then have r: "?r = (None, t)" by (rule settle_failed)
    have ff: "first_fit outcome (i # rest) t = first_fit outcome rest t"
      using None by (rule first_fit_failed)
    have "snd (fold (settle_at b64 cs outcome) (i # rest) (t, res)) ! j
        = snd (fold (settle_at b64 cs outcome) rest (t, res[i := None])) ! j"
      using step r by simp
    then show ?thesis
      unfolding ff IH upd using notin i by auto
  next
    case (Some n)
    show ?thesis
    proof (cases "n \<le> MAX_EACH_MB * 1024 * 1024 \<and> t + n \<le> MAX_TOTAL_MB * 1024 * 1024")
      case True
      have "attachment_at b64 cs outcome i =
          \<lparr> content = b64 (case outcome i of Fetched buf \<Rightarrow> buf | _ \<Rightarrow> []),
            att_filename = fd_filename (cs ! i),
            att_type = str_or (Some (fd_type (cs ! i))) (str ''application/octet-stream''),
            disposition = str ''attachment'' \<rparr>"
        by (simp add: attachment_at_def)
      then have r: "?r = (Some (attachment_at b64 cs outcome i), t + n)"
        using settle_admitted[OF Some True, of b64 "cs ! i"] by simp
      have ff: "first_fit outcome (i # rest) t = i # first_fit outcome rest (t + n)"
        using Some True by (rule first_fit_admitted)
      have "snd (fold (settle_at b64 cs outcome) (i # rest) (t, res)) ! j
          = snd (fold (settle_at b64 cs outcome) rest
                  (t + n, res[i := Some (attachment_at b64 cs outcome i)])) ! j"
        using step r by simp
      then show ?thesis
        unfolding ff IH upd using notin i by auto
    next
      case False
      with Some have r: "?r = (None, t)" by (rule settle_omitted)
      have ff: "first_fit outcome (i # rest) t = first_fit outcome rest t"
        using Some False by (rule first_fit_omitted)
      have "snd (fold (settle_at b64 cs outcome) (i # rest) (t, res)) ! j
          = snd (fold (settle_at b64 cs outcome) rest (t, res[i := None])) ! j"
        using step r by simp
      then show ?thesis
        unfolding ff IH upd using notin i by auto
    qed
  qed
qed

lemma map_filter_id_if:
  "List.map_filter id (map (\<lambda>j. if P j then Some (f j) else None) xs) = map f (filter P xs)"
  by (induction xs) (simp_all add: List.map_filter_simps)

lemma attachment_at_take:
  "i < length (take k fs) \<Longrightarrow> attachment_at b64 (take k fs) outcome i = attachment_at b64 fs outcome i"
  by (simp add: attachment_at_def)

lemma first_fit_filter_self:
  "distinct order \<Longrightarrow>
   filter (\<lambda>i. i \<in> set (first_fit outcome order t)) order = first_fit outcome order t"
proof (induction order arbitrary: t)
  case Nil
  show ?case by simp
next
  case (Cons i rest)
  have i: "i \<notin> set rest" and d: "distinct rest" using Cons.prems by auto
  have notin: "i \<notin> set (first_fit outcome rest u)" for u
    using first_fit_subset[of outcome rest u] i by blast
  have drop: "filter (\<lambda>j. j = i \<or> j \<in> set (first_fit outcome rest u)) rest
      = filter (\<lambda>j. j \<in> set (first_fit outcome rest u)) rest" for u
    using i by (intro filter_cong) auto
  show ?case
    using Cons.IH[OF d] notin by (auto simp: drop split: option.splits)
qed

lemma fetched_size_failed: "fetched_size out = None \<longleftrightarrow> fetch_failed out"
  by (cases out) (simp_all add: fetched_size_def)

lemma first_fit_skips_failed:
  "first_fit outcome (filter (\<lambda>i. \<not> fetch_failed (outcome i)) order) t = first_fit outcome order t"
  by (induction order arbitrary: t)
     (auto simp: fetched_size_failed[symmetric] split: option.splits)

lemma first_fit_no_failed:
  "fetch_failed (outcome i) \<Longrightarrow> i \<notin> set (first_fit outcome order t)"
  by (induction order arbitrary: t)
     (auto simp: fetched_size_failed[symmetric] split: option.splits if_splits)

lemma first_fit_no_large:
  "outcome i = Fetched buf \<Longrightarrow> MAX_EACH_MB * 1024 * 1024 < length buf \<Longrightarrow>
   i \<notin> set (first_fit outcome order t)"
  by (induction order arbitrary: t)
     (auto simp: fetched_size_def split: option.splits if_splits)

lemma first_fit_within_total:
  "t \<le> MAX_TOTAL_MB * 1024 * 1024 \<Longrightarrow>
   t + sum_list (map (\<lambda>i. case fetched_size (outcome i) of Some n \<Rightarrow> n | None \<Rightarrow> 0)
                   (first_fit outcome order t)) \<le> MAX_TOTAL_MB * 1024 * 1024"
proof (induction order arbitrary: t)
  case Nil
  then show ?case by simp
next
  case (Cons i rest)
  show ?case
  proof (cases "fetched_size (outcome i)")
    case None
    then show ?thesis using Cons.IH[OF Cons.prems] by simp
  next
    case (Some n)
    show ?thesis
    proof (cases "n \<le> MAX_EACH_MB * 1024 * 1024 \<and> t + n \<le> MAX_TOTAL_MB * 1024 * 1024")
      case True
      then have "t + n \<le> MAX_TOTAL_MB * 1024 * 1024" by blast
      from Cons.IH[OF this] show ?thesis
        unfolding first_fit_admitted[of outcome i n t rest, OF Some True] using Some by (simp add: add.assoc)
    next
      case False
      show ?thesis
        unfolding first_fit_omitted[of outcome i n t rest, OF Some False] using Cons.IH[OF Cons.prems] .
    qed
  qed
qed

text \<open>For any order of completion that names no file twice: the callbacks that run are
  those of the considered files, and the result is made of the indices first fit admits
  along them, in index order.\<close>

lemma processAttachments_started:
  assumes "distinct order"
  shows "processAttachments b64 files outcome order =
     map (attachment_at b64 files outcome)
       (filter (\<lambda>i. i \<in> set (first_fit outcome
                                   (filter (\<lambda>i. i < length (take MAX_ATTACH files)) order) 0))
          [0..<length (take MAX_ATTACH files)])"
proof -
  let ?cs = "take MAX_ATTACH files"
  let ?n = "length ?cs"
  let ?started = "filter (\<lambda>i. i < ?n) order"
  let ?res = "snd (fold (settle_at b64 ?cs outcome) ?started (0, replicate ?n None))"
  let ?P = "\<lambda>i. i \<in> set (first_fit outcome ?started 0)"
  have d: "distinct ?started" using assms by simp
  have len: "length ?res = ?n" by (simp add: fold_settle_length)
  have nth: "?res ! j = (if ?P j then Some (attachment_at b64 ?cs outcome j) else None)"
    if "j < ?n" for j
  proof -
    have "?res ! j = (if j \<in> set ?started
      then (if ?P j then Some (attachment_at b64 ?cs outcome j) else None)
      else replicate ?n None ! j)"
      using that d by (intro fold_settle_nth) simp_all
    moreover have "j \<notin> set ?started \<Longrightarrow> \<not> ?P j"
      using first_fit_subset[of outcome ?started 0] by blast
    ultimately show ?thesis using that by auto
  qed
  have "?res = map (\<lambda>j. if ?P j then Some (attachment_at b64 ?cs outcome j) else None) [0..<?n]"
    by (rule nth_equalityI) (simp_all add: len nth del: length_take)
  then have "List.map_filter id ?res = map (attachment_at b64 ?cs outcome) (filter ?P [0..<?n])"
    by (simp only: map_filter_id_if)
  also have "\<dots> = map (attachment_at b64 files outcome) (filter ?P [0..<?n])"
    by (rule map_cong[OF refl]) (simp add: attachment_at_take del: length_take)
  finally show ?thesis by (simp add: processAttachments_def Let_def)
qed

lemma processAttachments_schedule:
  assumes "distinct order" and "set order \<subseteq> {0..<length (take MAX_ATTACH files)}"
  shows "processAttachments b64 files outcome order =
     map (attachment_at b64 files outcome)
       (filter (\<lambda>i. i \<in> set (first_fit outcome order 0)) [0..<length (take MAX_ATTACH files)])"
proof -
  have "filter (\<lambda>i. i < length (take MAX_ATTACH files)) order = order"
    using assms(2) by (intro filter_True) auto
  with processAttachments_started[OF assms(1), of b64 files outcome] show ?thesis by simp
qed

lemma completion_orderD:
  "completion_order files order \<Longrightarrow>
   distinct order \<and> set order \<subseteq> {0..<length (take MAX_ATTACH files)}"
  by (simp add: completion_order_def)

lemma payload_started:
  assumes "payload_order files order"
  shows "filter (\<lambda>i. i < length (take MAX_ATTACH files)) order = filter (\<lambda>i. i < MAX_ATTACH) order"
proof (rule filter_cong[OF refl])
  fix i assume "i \<in> set order"
  with assms have "i < length files" by (simp add: payload_order_def)
  then show "(i < length (take MAX_ATTACH files)) = (i < MAX_ATTACH)" by simp
qed

lemma admitted_considered:
  "filter (\<lambda>i. i \<in> set (first_fit outcome (filter (\<lambda>i. i < length (take k files)) order) t))
     [0..<length files]
   = filter (\<lambda>i. i \<in> set (first_fit outcome (filter (\<lambda>i. i < length (take k files)) order) t))
     [0..<length (take k files)]"
proof -
  let ?A = "set (first_fit outcome (filter (\<lambda>i. i < length (take k files)) order) t)"
  let ?n = "length (take k files)"
  have sub: "?A \<subseteq> {0..<?n}"
    using first_fit_subset[of outcome "filter (\<lambda>i. i < ?n) order" t] by auto
  have le: "?n \<le> length files" by simp
  have "[0..<length files] = [0..<?n] @ [?n..<length files]"
    using le by (metis le_add_diff_inverse upt_add_eq_append zero_le)
  moreover have "filter (\<lambda>i. i \<in> ?A) [?n..<length files] = []"
    using sub by (auto simp: filter_empty_conv simp del: length_take)
  ultimately show ?thesis by (simp del: length_take)
qed

lemma map_filter_id_length: "length (List.map_filter id xs) \<le> length xs"
  by (simp add: List.map_filter_def)

lemma processAttachments_length:
  "length (processAttachments b64 files outcome order) \<le> MAX_ATTACH"
proof -
  let ?cs = "take MAX_ATTACH files"
  have "length (processAttachments b64 files outcome order) \<le> length ?cs"
    unfolding processAttachments_def Let_def
    using map_filter_id_length[of "snd (fold (settle_at b64 ?cs outcome)
        (filter (\<lambda>i. i < length ?cs) order) (0, replicate (length ?cs) None))"]
    by (simp only: fold_settle_length snd_conv length_replicate)
  then show ?thesis by simp
qed

lemma fold_settle_cong:
  "\<forall>i \<in> set order. outcome' i = outcome i \<Longrightarrow>
   fold (settle_at b64 cs outcome') order st = fold (settle_at b64 cs outcome) order st"
  by (induction order arbitrary: st) (simp_all add: settle_at_def)

lemma processAttachments_considered_only:
  assumes "take MAX_ATTACH files' = take MAX_ATTACH files"
    and "\<forall>i<MAX_ATTACH. outcome' i = outcome i"
  shows "processAttachments b64 files' outcome' order = processAttachments b64 files outcome order"
proof -
  let ?cs = "take MAX_ATTACH files"
  have "\<forall>i \<in> set (filter (\<lambda>i. i < length ?cs) order). outcome' i = outcome i"
    using assms(2) by simp
  from fold_settle_cong[OF this] show ?thesis
    by (simp add: processAttachments_def Let_def assms(1) del: length_take)
qed

lemma input_order_result:
  "processAttachments b64 files outcome [0..<length files]
     = admitted_in_input_order b64 files outcome"
proof -
  let ?n = "length (take MAX_ATTACH files)"
  have le: "?n \<le> length files" by simp
  have "[0..<length files] = [0..<?n] @ [?n..<length files]"
    using le by (metis le_add_diff_inverse upt_add_eq_append zero_le)
  moreover have "filter (\<lambda>i. i < ?n) [?n..<length files] = []"
    by (auto simp: filter_empty_conv)
  moreover have "filter (\<lambda>i. i < ?n) [0..<?n] = [0..<?n]"
    by (rule filter_True) simp
  ultimately have st: "filter (\<lambda>i. i < ?n) [0..<length files] = [0..<?n]"
    by (simp del: length_take)
  have "processAttachments b64 files outcome [0..<length files] =
     map (attachment_at b64 files outcome)
       (filter (\<lambda>i. i \<in> set (first_fit outcome [0..<?n] 0)) [0..<?n])"
    using processAttachments_started[of "[0..<length files]" b64 files outcome]
    unfolding st by simp
  also have "filter (\<lambda>i. i \<in> set (first_fit outcome [0..<?n] 0)) [0..<?n]
      = first_fit outcome [0..<?n] 0"
    by (rule first_fit_filter_self) simp
  finally show ?thesis by (simp only: admitted_in_input_order_def)
qed

text \<open>
  Claim C3, as the code has it. Take any order in which the fetches of the files of the
  payload could complete, each file once. The callbacks that run are those of the first
  \<open>MAX_ATTACH\<close> files: the result is made of the files that first fit admits when it walks
  these in the order of completion, and it lists them in input order; it has at most
  \<open>MAX_ATTACH\<close> attachments; the files after the first \<open>MAX_ATTACH\<close> and what their
  fetches would bring play no part; a file larger than the per-file limit is never
  admitted; the admitted bytes stay within the total limit; and when the fetches complete
  in input order the result is the first fit in input order that the specification
  describes.
\<close>

theorem admission_in_completion_order:
  assumes "payload_order files order"
  shows "processAttachments b64 files outcome order =
           map (attachment_at b64 files outcome)
             (filter (\<lambda>i. i \<in> set (first_fit outcome (filter (\<lambda>i. i < MAX_ATTACH) order) 0))
                [0..<length files])
       \<and> length (processAttachments b64 files outcome order) \<le> MAX_ATTACH
       \<and> (\<forall>files' outcome'. take MAX_ATTACH files' = take MAX_ATTACH files \<longrightarrow>
             (\<forall>i<MAX_ATTACH. outcome' i = outcome i) \<longrightarrow>
             processAttachments b64 files' outcome' order = processAttachments b64 files outcome order)
       \<and> (\<forall>i buf. outcome i = Fetched buf \<longrightarrow> MAX_EACH_MB * 1024 * 1024 < length buf
             \<longrightarrow> i \<notin> set (first_fit outcome (filter (\<lambda>i. i < MAX_ATTACH) order) 0))
       \<and> sum_list (map (\<lambda>i. case fetched_size (outcome i) of Some n \<Rightarrow> n | None \<Rightarrow> 0)
             (first_fit outcome (filter (\<lambda>i. i < MAX_ATTACH) order) 0)) \<le> MAX_TOTAL_MB * 1024 * 1024
       \<and> processAttachments b64 files outcome [0..<length files]
           = admitted_in_input_order b64 files outcome"
proof -
  let ?started = "filter (\<lambda>i. i < MAX_ATTACH) order"
  from assms have d: "distinct order" by (simp add: payload_order_def)
  have 1: "processAttachments b64 files outcome order =
           map (attachment_at b64 files outcome)
             (filter (\<lambda>i. i \<in> set (first_fit outcome ?started 0)) [0..<length files])"
    using processAttachments_started[OF d, of b64 files outcome]
      admitted_considered[of outcome MAX_ATTACH files order 0]
    unfolding payload_started[OF assms] by simp
  have 2: "length (processAttachments b64 files outcome order) \<le> MAX_ATTACH"
    by (rule processAttachments_length)
  have 3: "\<forall>files' outcome'. take MAX_ATTACH files' = take MAX_ATTACH files \<longrightarrow>
             (\<forall>i<MAX_ATTACH. outcome' i = outcome i) \<longrightarrow>
             processAttachments b64 files' outcome' order = processAttachments b64 files outcome order"
    using processAttachments_considered_only by blast
  have 4: "\<forall>i buf. outcome i = Fetched buf \<longrightarrow> MAX_EACH_MB * 1024 * 1024 < length buf
             \<longrightarrow> i \<notin> set (first_fit outcome ?started 0)"
    using first_fit_no_large by blast
  have 5: "sum_list (map (\<lambda>i. case fetched_size (outcome i) of Some n \<Rightarrow> n | None \<Rightarrow> 0)
             (first_fit outcome ?started 0)) \<le> MAX_TOTAL_MB * 1024 * 1024"
    using first_fit_within_total[of 0 outcome ?started] by simp
  from 1 2 3 4 5 input_order_result show ?thesis by blast
qed

text \<open>
  Claim C8. \<open>processAttachments\<close> always returns a list: a fetch that throws or is not
  \<^verbatim>\<open>ok\<close> makes its own callback return \<^verbatim>\<open>null\<close> and nothing more. For every order of
  completion the result is the one the callbacks of the other files produce when the failed
  ones never run, that is first fit over the successful fetches alone, and a failed file is
  never among the admitted ones.
\<close>

theorem failed_fetch_omits_only_itself:
  assumes "completion_order files order"
  shows "processAttachments b64 files outcome order
           = processAttachments b64 files outcome (filter (\<lambda>i. \<not> fetch_failed (outcome i)) order)
       \<and> processAttachments b64 files outcome order =
           map (attachment_at b64 files outcome)
             (filter (\<lambda>i. i \<in> set (first_fit outcome
                                       (filter (\<lambda>i. \<not> fetch_failed (outcome i)) order) 0))
                [0..<length (take MAX_ATTACH files)])
       \<and> (\<forall>i. fetch_failed (outcome i) \<longrightarrow> i \<notin> set (first_fit outcome order 0))"
proof -
  let ?ok = "filter (\<lambda>i. \<not> fetch_failed (outcome i)) order"
  from completion_orderD[OF assms] have d: "distinct order"
    and sub: "set order \<subseteq> {0..<length (take MAX_ATTACH files)}" by blast+
  have d': "distinct ?ok" using d by simp
  have sub': "set ?ok \<subseteq> {0..<length (take MAX_ATTACH files)}" using sub by auto
  have a: "processAttachments b64 files outcome order =
           map (attachment_at b64 files outcome)
             (filter (\<lambda>i. i \<in> set (first_fit outcome order 0))
                [0..<length (take MAX_ATTACH files)])"
    using d sub by (rule processAttachments_schedule)
  have b: "processAttachments b64 files outcome ?ok =
           map (attachment_at b64 files outcome)
             (filter (\<lambda>i. i \<in> set (first_fit outcome ?ok 0))
                [0..<length (take MAX_ATTACH files)])"
    using d' sub' by (rule processAttachments_schedule)
  have c: "first_fit outcome ?ok 0 = first_fit outcome order 0"
    by (rule first_fit_skips_failed)
  from a b c first_fit_no_failed show ?thesis by metis
qed

text \<open>The sample files with given fetches and orders of completion.\<close>

lemma length_sample_bytes: "length (sample_bytes n) = n"
  by (simp add: sample_bytes_def)

lemma sample_schedules:
  "completion_order sample_descs [0, 1, 2]"
  "payload_order sample_descs [2, 0, 1]"
  "payload_order sample_descs [2, 1, 0]"
  by (auto simp: completion_order_def payload_order_def MAX_ATTACH_def sample_descs_def)

lemma sample_schedule11:
  "payload_order sample_descs11 [10, 9, 8, 7, 6, 5, 4, 3, 2, 1, 0]"
  by (auto simp: payload_order_def sample_descs11_def, arith)

lemma sample_considered:
  "[0..<length (take MAX_ATTACH sample_descs)] = [0, 1, 2]"
  "[0..<length sample_descs] = [0, 1, 2]"
  "[0..<length sample_descs11] = [0, 1, 2, 3, 4, 5, 6, 7, 8, 9, 10]"
  by (simp_all add: MAX_ATTACH_def sample_descs_def sample_descs11_def upt_rec)

lemma sample_started:
  "filter (\<lambda>i. i < MAX_ATTACH) [2, 0, 1] = [2, 0, 1]"
  "filter (\<lambda>i. i < MAX_ATTACH) [2, 1, 0] = [2, 1, 0]"
  "filter (\<lambda>i. i < MAX_ATTACH) [10, 9, 8, 7, 6, 5, 4, 3, 2, 1, 0] = [9, 8, 7, 6, 5, 4, 3, 2, 1, 0]"
  by (simp_all add: MAX_ATTACH_def)

lemmas fetch_defs = sample_fetch_def fetched_size_def length_sample_bytes MAX_EACH_MB_def
  MAX_TOTAL_MB_def

lemma sample_attachment_name:
  "map (\<lambda>i. att_filename (attachment_at b64 sample_descs outcome i)) [0, 1, 2]
     = map str [''a.jpg'', ''b.jpg'', ''c.jpg'']"
  "map (\<lambda>i. att_filename (attachment_at b64 sample_descs11 outcome i)) [0, 1, 2, 3, 4, 5, 6, 7, 8, 9]
     = map str [''a.jpg'', ''b.jpg'', ''c.jpg'', ''d.jpg'', ''e.jpg'', ''f.jpg'', ''g.jpg'',
                ''h.jpg'', ''i.jpg'', ''j.jpg'']"
  by (simp_all add: attachment_at_def sample_descs_def sample_descs11_def sample_desc_def)

lemma sample_filter:
  "filter (\<lambda>i. i \<in> set [0, 1]) [0, 1, 2::nat] = [0, 1]"
  "filter (\<lambda>i. i \<in> set [2, 1]) [0, 1, 2::nat] = [1, 2]"
  "filter (\<lambda>i. i \<in> set [0, 2]) [0, 1, 2::nat] = [0, 2]"
  "filter (\<lambda>i. i \<in> set [9, 8, 7, 6, 5, 4, 3, 2, 1, 0]) [0, 1, 2, 3, 4, 5, 6, 7, 8, 9, 10::nat]
     = [0, 1, 2, 3, 4, 5, 6, 7, 8, 9]"
  by simp_all

text \<open>
  Claim C3 on the example of the specification, files of 5 MB, 3 MB and 15 MB, with the
  third fetch completing first: the first two files are admitted, in input order. And on a
  payload of eleven small files whose fetches would complete in reverse order: the first
  ten are attached, the eleventh is not.
\<close>

theorem admission_in_completion_order_witness:
  "payload_order sample_descs [2, 0, 1]
   \<and> first_fit (sample_fetch [Fetched (sample_bytes 5242880), Fetched (sample_bytes 3145728),
                         Fetched (sample_bytes 15728640)]) [2, 0, 1] 0 = [0, 1]
   \<and> map att_filename
       (processAttachments sample_base64 sample_descs
          (sample_fetch [Fetched (sample_bytes 5242880), Fetched (sample_bytes 3145728),
                         Fetched (sample_bytes 15728640)]) [2, 0, 1])
     = map str [''a.jpg'', ''b.jpg'']
   \<and> payload_order sample_descs11 [10, 9, 8, 7, 6, 5, 4, 3, 2, 1, 0]
   \<and> map att_filename
       (processAttachments sample_base64 sample_descs11 (\<lambda>i. Fetched (sample_bytes 3))
          [10, 9, 8, 7, 6, 5, 4, 3, 2, 1, 0])
     = map str [''a.jpg'', ''b.jpg'', ''c.jpg'', ''d.jpg'', ''e.jpg'', ''f.jpg'', ''g.jpg'',
                ''h.jpg'', ''i.jpg'', ''j.jpg'']"
proof -
  let ?out = "sample_fetch [Fetched (sample_bytes 5242880), Fetched (sample_bytes 3145728),
                         Fetched (sample_bytes 15728640)]"
  let ?small = "\<lambda>i::nat. Fetched (sample_bytes 3)"
  have ff: "first_fit ?out [2, 0, 1] 0 = [0, 1]"
    by (simp add: fetch_defs)
  from admission_in_completion_order[OF sample_schedules(2), of sample_base64 ?out]
  have "processAttachments sample_base64 sample_descs ?out [2, 0, 1] =
      map (attachment_at sample_base64 sample_descs ?out) [0, 1]"
    unfolding sample_considered sample_started ff sample_filter by (rule conjunct1)
  then have three: "map att_filename (processAttachments sample_base64 sample_descs ?out [2, 0, 1])
      = map str [''a.jpg'', ''b.jpg'']"
    using sample_attachment_name(1)[of sample_base64 ?out] by simp
  have ff11: "first_fit ?small [9, 8, 7, 6, 5, 4, 3, 2, 1, 0] 0 = [9, 8, 7, 6, 5, 4, 3, 2, 1, 0]"
    by (simp add: fetch_defs)
  from admission_in_completion_order[OF sample_schedule11, of sample_base64 ?small]
  have "processAttachments sample_base64 sample_descs11 ?small [10, 9, 8, 7, 6, 5, 4, 3, 2, 1, 0] =
      map (attachment_at sample_base64 sample_descs11 ?small) [0, 1, 2, 3, 4, 5, 6, 7, 8, 9]"
    unfolding sample_considered sample_started ff11 sample_filter by (rule conjunct1)
  then have eleven: "map att_filename
       (processAttachments sample_base64 sample_descs11 ?small [10, 9, 8, 7, 6, 5, 4, 3, 2, 1, 0])
      = map str [''a.jpg'', ''b.jpg'', ''c.jpg'', ''d.jpg'', ''e.jpg'', ''f.jpg'', ''g.jpg'',
                ''h.jpg'', ''i.jpg'', ''j.jpg'']"
    using sample_attachment_name(2)[of sample_base64 ?small] by simp
  from sample_schedules(2) ff three sample_schedule11 eleven show ?thesis by blast
qed

text \<open>
  Claim C3 as the specification words it, with the total counted in input order: for three
  files of 7 MB whose fetches complete in reverse order the code admits the second and the
  third, first fit in input order the first and the second.
\<close>

theorem completion_order_counterexample:
  "payload_order sample_descs [2, 1, 0]
   \<and> map att_filename (processAttachments sample_base64 sample_descs
          (sample_fetch [Fetched (sample_bytes 7340032), Fetched (sample_bytes 7340032),
                         Fetched (sample_bytes 7340032)]) [2, 1, 0])
       = map str [''b.jpg'', ''c.jpg'']
   \<and> map att_filename (admitted_in_input_order sample_base64 sample_descs
          (sample_fetch [Fetched (sample_bytes 7340032), Fetched (sample_bytes 7340032),
                         Fetched (sample_bytes 7340032)]))
       = map str [''a.jpg'', ''b.jpg'']
   \<and> processAttachments sample_base64 sample_descs
          (sample_fetch [Fetched (sample_bytes 7340032), Fetched (sample_bytes 7340032),
                         Fetched (sample_bytes 7340032)]) [2, 1, 0]
     \<noteq> admitted_in_input_order sample_base64 sample_descs
          (sample_fetch [Fetched (sample_bytes 7340032), Fetched (sample_bytes 7340032),
                         Fetched (sample_bytes 7340032)])"
proof -
  let ?out = "sample_fetch [Fetched (sample_bytes 7340032), Fetched (sample_bytes 7340032),
                         Fetched (sample_bytes 7340032)]"
  have ff: "first_fit ?out [2, 1, 0] 0 = [2, 1]"
    by (simp add: fetch_defs)
  have ff': "first_fit ?out [0, 1, 2] 0 = [0, 1]"
    by (simp add: fetch_defs)
  have "distinct [2, 1, 0::nat]" and "set [2, 1, 0::nat] \<subseteq> {0..<length (take MAX_ATTACH sample_descs)}"
    by (auto simp: MAX_ATTACH_def sample_descs_def)
  then have "processAttachments sample_base64 sample_descs ?out [2, 1, 0] =
      map (attachment_at sample_base64 sample_descs ?out)
        (filter (\<lambda>i. i \<in> set (first_fit ?out [2, 1, 0] 0))
           [0..<length (take MAX_ATTACH sample_descs)])"
    by (rule processAttachments_schedule)
  then have code: "processAttachments sample_base64 sample_descs ?out [2, 1, 0] =
      map (attachment_at sample_base64 sample_descs ?out) [1, 2]"
    unfolding sample_considered ff sample_filter .
  have spec: "admitted_in_input_order sample_base64 sample_descs ?out =
      map (attachment_at sample_base64 sample_descs ?out) [0, 1]"
    unfolding admitted_in_input_order_def sample_considered ff' ..
  have n1: "map att_filename (processAttachments sample_base64 sample_descs ?out [2, 1, 0])
      = map str [''b.jpg'', ''c.jpg'']"
    unfolding code using sample_attachment_name(1)[of sample_base64 ?out] by simp
  have n2: "map att_filename (admitted_in_input_order sample_base64 sample_descs ?out)
      = map str [''a.jpg'', ''b.jpg'']"
    unfolding spec using sample_attachment_name(1)[of sample_base64 ?out] by simp
  have "str ''b.jpg'' \<noteq> str ''a.jpg''" by (simp add: str_def)
  with n1 n2 have "processAttachments sample_base64 sample_descs ?out [2, 1, 0]
      \<noteq> admitted_in_input_order sample_base64 sample_descs ?out"
    by auto
  with sample_schedules(3) n1 n2 show ?thesis by blast
qed

text \<open>Claim C8 on three files whose second fetch answers 404: the first and the third
  are admitted, as when the second callback never runs.\<close>

theorem failed_fetch_omits_only_itself_witness:
  "completion_order sample_descs [0, 1, 2]
   \<and> fetch_failed (sample_fetch [Fetched (sample_bytes 5), NotOk 404, Fetched (sample_bytes 3)] 1)
   \<and> map att_filename
       (processAttachments sample_base64 sample_descs
          (sample_fetch [Fetched (sample_bytes 5), NotOk 404, Fetched (sample_bytes 3)]) [0, 1, 2])
     = map str [''a.jpg'', ''c.jpg'']
   \<and> processAttachments sample_base64 sample_descs
          (sample_fetch [Fetched (sample_bytes 5), NotOk 404, Fetched (sample_bytes 3)]) [0, 1, 2]
     = processAttachments sample_base64 sample_descs
          (sample_fetch [Fetched (sample_bytes 5), NotOk 404, Fetched (sample_bytes 3)]) [0, 2]"
proof -
  let ?out = "sample_fetch [Fetched (sample_bytes 5), NotOk 404, Fetched (sample_bytes 3)]"
  note inst = failed_fetch_omits_only_itself[OF sample_schedules(1), of sample_base64 ?out]
  have failed: "fetch_failed (?out 1)" by (simp add: sample_fetch_def)
  have ok: "filter (\<lambda>i. \<not> fetch_failed (?out i)) [0, 1, 2] = [0, 2]"
    by (simp add: sample_fetch_def)
  have ff: "first_fit ?out [0, 2] 0 = [0, 2]"
    by (simp add: fetch_defs)
  from inst have same: "processAttachments sample_base64 sample_descs ?out [0, 1, 2]
      = processAttachments sample_base64 sample_descs ?out [0, 2]"
    unfolding ok by (rule conjunct1)
  from inst have "processAttachments sample_base64 sample_descs ?out [0, 1, 2] =
      map (attachment_at sample_base64 sample_descs ?out) [0, 2]"
    unfolding ok sample_considered ff sample_filter by blast
  then have "map att_filename (processAttachments sample_base64 sample_descs ?out [0, 1, 2])
      = map str [''a.jpg'', ''c.jpg'']"
    using sample_attachment_name(1)[of sample_base64 ?out] by simp
  with sample_schedules(1) failed same show ?thesis by blast
qed

end
